theory Spec2Isabelle
  imports Complex_Main "HOL-Library.Sublist" "HOL-Library.List_Lexorder" "HOL-Library.Char_ord"
begin

section \<open>The Kinetic object auditor (kinetic\_swift/obj/auditor.py)\<close>

text \<open>
  The auditor is a Python class whose methods mutate \<open>self\<close> and talk to collaborators
  that live outside the file: the ring, the Kinetic connection, the disk file, the clock,
  the rate limiter, the logger and the recon cache. The embedding passes the auditor's
  fields explicitly as a record, returns every raised exception as a value, and records
  every call to a collaborator as an event of a trace. What a collaborator answers is a
  function of the trace so far, so that the answers may change while the auditor runs
  (an object can vanish, the clock advances), and is collected in the record \<open>world\<close>.
\<close>

subsection \<open>Exceptions and results\<close>

text \<open>
  \<open>DiskFileNotExist\<close> and \<open>DiskFileDeviceUnavailable\<close> are the two classes the source
  names in an \<open>except\<close> clause (a constructor stands for the class and its subclasses).
  \<open>TypeError\<close>, \<open>ValueError\<close> and \<open>KeyError\<close> are raised by the built-ins the source
  calls. \<open>OtherException\<close> is any other subclass of \<open>Exception\<close>; \<open>BaseException\<close> is
  an exception outside that hierarchy (KeyboardInterrupt, SystemExit, an eventlet
  Timeout), which \<open>except Exception\<close> does not catch.
\<close>

datatype exn =
    DiskFileNotExist
  | DiskFileDeviceUnavailable
  | TypeError
  | ValueError
  | KeyError
  | OtherException string
  | BaseException string

fun is_Exception :: "exn \<Rightarrow> bool" where
  "is_Exception (BaseException _) = False"
| "is_Exception _ = True"

datatype 'a result = Normal 'a | Raised exn

subsection \<open>Data\<close>

type_synonym device = string
type_synonym key = string
type_synonym chunk = string

text \<open>A ring entry is \<open>None\<close> (a removed device) or a dict; only its key \<open>device\<close> is read.\<close>

type_synonym ring_dev = "(string \<times> string) list option"

text \<open>
  What opening a disk file gives: \<open>get_diskfile_from_audit_location\<close> may raise, \<open>df.open()\<close>
  may raise, and an opened file has its metadata (or \<open>get_metadata\<close> raises), the chunks
  its iterator yields, and the exception that ends the iteration early, if any.
\<close>

record opened_object =
  ob_metadata :: "exn + (string \<rightharpoonup> string)"
  ob_chunks :: "chunk list"
  ob_stream_end :: "exn option"

datatype open_result =
    GetDiskfileRaises exn
  | OpenRaises exn
  | Opened opened_object

datatype log_record =
    LogBeginSweep
  | LogSweepCompleted real
  | LogNotExist key
  | LogSizeMismatch key nat "string option"
  | LogEtagMismatch key string "string option"
  | LogUnhandledObject device key
  | LogUnableToConnect device
  | LogUnhandledDevice device
  | LogStartingSweep "device list"
  | LogFinishedSweep "device list" real "string \<Rightarrow> int"

datatype event =
    EvTime
  | EvRandom
  | EvSleep real
  | EvLog log_record
  | EvRecon string real
  | EvGetRings string
  | EvConnect device
  | EvIterKeyRange device string string
  | EvOpen device key
  | EvReadChunk device key chunk
  | EvRateLimit real real nat
  | EvQuarantine device key

text \<open>
  The collaborators, none of which is defined in the file: \<open>time.time\<close> and
  \<open>random.random\<close>; \<open>ratelimit_sleep\<close> (its return value; its sleeping is the event);
  \<open>hashlib.md5\<close> (the hex digest of the content fed to it); \<open>POLICIES\<close> and
  \<open>get_object_ring\<close>; the iteration order of a Python set; \<open>get_device_host_and_port\<close>
  with \<open>DiskFileManager.get_connection\<close>, and \<open>iterKeyRange\<close> on the connection;
  \<open>get_diskfile_from_audit_location\<close> with the disk file's \<open>open\<close>, \<open>get_metadata\<close> and
  iterator; and the disk file's \<open>quarantine\<close>. Floating-point subtraction and
  multiplication are parameters too: the model computes with reals and leaves the
  rounding to the world. The logger, \<open>dump_recon_cache\<close>, \<open>time.sleep\<close>, \<open>ratelimit_sleep\<close>
  and the exit of the \<open>with\<close> block are taken to return normally.
\<close>

record world =
  w_time :: "event list \<Rightarrow> real"
  w_random :: "event list \<Rightarrow> real"
  w_fsub :: "real \<Rightarrow> real \<Rightarrow> real"
  w_fmul :: "real \<Rightarrow> real \<Rightarrow> real"
  w_ratelimit_sleep :: "event list \<Rightarrow> real \<Rightarrow> real \<Rightarrow> nat \<Rightarrow> real"
  w_md5_hexdigest :: "string \<Rightarrow> string"
  w_object_ring_devs :: "event list \<Rightarrow> string \<Rightarrow> (exn + ring_dev list) list"
  w_set_iter :: "device set \<Rightarrow> device list"
  w_get_connection :: "event list \<Rightarrow> device \<Rightarrow> exn option"
  w_iterKeyRange :: "event list \<Rightarrow> device \<Rightarrow> string \<Rightarrow> string \<Rightarrow> key list \<times> exn option"
  w_open :: "event list \<Rightarrow> device \<Rightarrow> key \<Rightarrow> open_result"
  w_quarantine :: "event list \<Rightarrow> device \<Rightarrow> key \<Rightarrow> exn option"

text \<open>The fields of \<open>self\<close> that the file reads or writes, and the trace.\<close>

record auditor =
  swift_dir :: string
  max_files_per_second :: real
  max_bytes_per_second :: real
  interval :: real
  stats :: "string \<Rightarrow> int"
  bytes_running_time :: real
  bytes_processed :: int
  total_bytes_processed :: int
  total_files_processed :: int
  passes :: int
  quarantines :: int
  errors :: int
  trace :: "event list"

text \<open>The configuration entries \<open>__init__\<close> reads, after \<open>float\<close>.\<close>

record conf =
  conf_swift_dir :: "string option"
  conf_files_per_second :: "real option"
  conf_bytes_per_second :: "real option"

subsection \<open>Python's \<open>int\<close> on a string\<close>

text \<open>
  \<open>int(s)\<close> strips ASCII whitespace, reads an optional sign and then needs at least one
  decimal digit and nothing else; \<open>int(None)\<close> is a TypeError.
\<close>

definition is_space :: "char \<Rightarrow> bool" where
  "is_space c = (c \<in> set [CHR '' '', CHR 0x09, CHR 0x0A, CHR 0x0B, CHR 0x0C, CHR 0x0D])"

definition strip :: "string \<Rightarrow> string" where
  "strip xs = rev (dropWhile is_space (rev (dropWhile is_space xs)))"

definition is_digit :: "char \<Rightarrow> bool" where
  "is_digit c = (48 \<le> (of_char c :: nat) \<and> (of_char c :: nat) \<le> 57)"

fun digits_value :: "nat \<Rightarrow> string \<Rightarrow> nat option" where
  "digits_value acc [] = Some acc"
| "digits_value acc (c # cs) =
     (if is_digit c then digits_value (10 * acc + (of_char c - 48)) cs else None)"

definition parse_digits :: "string \<Rightarrow> nat option" where
  "parse_digits cs = (if cs = [] then None else digits_value 0 cs)"

definition py_int :: "string option \<Rightarrow> exn + int" where
  "py_int v =
     (case v of
        None \<Rightarrow> Inl TypeError
      | Some xs \<Rightarrow>
          (case strip xs of
             [] \<Rightarrow> Inl ValueError
           | c # cs \<Rightarrow>
               (if c = CHR ''-'' then
                  (case parse_digits cs of None \<Rightarrow> Inl ValueError | Some n \<Rightarrow> Inr (- int n))
                else if c = CHR ''+'' then
                  (case parse_digits cs of None \<Rightarrow> Inl ValueError | Some n \<Rightarrow> Inr (int n))
                else
                  (case parse_digits (c # cs) of None \<Rightarrow> Inl ValueError | Some n \<Rightarrow> Inr (int n)))))"

subsection \<open>The auditor\<close>

definition emit :: "event \<Rightarrow> auditor \<Rightarrow> auditor" where
  "emit e s = s\<lparr>trace := trace s @ [e]\<rparr>"

definition incr :: "string \<Rightarrow> auditor \<Rightarrow> auditor" where
  "incr k s = s\<lparr>stats := (stats s)(k := stats s k + 1)\<rparr>"

definition reset_stats :: "auditor \<Rightarrow> auditor" where
  "reset_stats s =
     s\<lparr>stats := (\<lambda>k. 0), bytes_running_time := 0, bytes_processed := 0,
       total_bytes_processed := 0, total_files_processed := 0, passes := 0,
       quarantines := 0, errors := 0\<rparr>"

text \<open>\<open>__init__\<close>: the fields after the constructor, from the configuration.\<close>

definition init :: "conf \<Rightarrow> auditor" where
  "init c =
     reset_stats
       \<lparr>swift_dir = (case conf_swift_dir c of None \<Rightarrow> ''/etc/swift'' | Some d \<Rightarrow> d),
        max_files_per_second = (case conf_files_per_second c of None \<Rightarrow> 20 | Some r \<Rightarrow> r),
        max_bytes_per_second = (case conf_bytes_per_second c of None \<Rightarrow> 10000000 | Some r \<Rightarrow> r),
        interval = 30,
        stats = (\<lambda>k. 0), bytes_running_time = 0, bytes_processed = 0,
        total_bytes_processed = 0, total_files_processed = 0, passes = 0,
        quarantines = 0, errors = 0, trace = []\<rparr>"

definition read_time :: "world \<Rightarrow> auditor \<Rightarrow> real \<times> auditor" where
  "read_time w s = (w_time w (trace s), emit EvTime s)"

text \<open>
  \<open>_get_devices\<close>: the set comprehension over the policies' rings. The world gives, for
  every policy of \<open>POLICIES\<close> in order, the \<open>devs\<close> of its object ring, or the exception
  that loading the ring raises.
\<close>

fun ring_device_names :: "ring_dev list \<Rightarrow> exn + device list" where
  "ring_device_names [] = Inr []"
| "ring_device_names (d # ds) =
     (case d of
        None \<Rightarrow> ring_device_names ds
      | Some dict \<Rightarrow>
          (if dict = [] then ring_device_names ds
           else (case map_of dict ''device'' of
                   None \<Rightarrow> Inl KeyError
                 | Some name \<Rightarrow>
                     (case ring_device_names ds of
                        Inl e \<Rightarrow> Inl e
                      | Inr names \<Rightarrow> Inr (name # names)))))"

fun policies_device_names :: "(exn + ring_dev list) list \<Rightarrow> exn + device list" where
  "policies_device_names [] = Inr []"
| "policies_device_names (ring # rest) =
     (case ring of
        Inl e \<Rightarrow> Inl e
      | Inr devs \<Rightarrow>
          (case ring_device_names devs of
             Inl e \<Rightarrow> Inl e
           | Inr names \<Rightarrow>
               (case policies_device_names rest of
                  Inl e \<Rightarrow> Inl e
                | Inr names' \<Rightarrow> Inr (names @ names'))))"

definition get_devices_priv :: "world \<Rightarrow> auditor \<Rightarrow> device set result \<times> auditor" where
  "get_devices_priv w s =
     (let s1 = emit (EvGetRings (swift_dir s)) s in
      case policies_device_names (w_object_ring_devs w (trace s) (swift_dir s)) of
        Inl e \<Rightarrow> (Raised e, s1)
      | Inr names \<Rightarrow> (Normal (set names), s1))"

text \<open>
  \<open>_find_objects\<close>: the generator connects when it is first advanced, then yields the keys
  of the range; what it yields and how it ends is fixed when the range query starts.
\<close>

definition find_objects_priv :: "world \<Rightarrow> device \<Rightarrow> auditor \<Rightarrow> (key list \<times> exn option) \<times> auditor" where
  "find_objects_priv w device s =
     (let s1 = emit (EvConnect device) s in
      case w_get_connection w (trace s) device of
        Some e \<Rightarrow> (([], Some e), s1)
      | None \<Rightarrow>
          (w_iterKeyRange w (trace s1) device ''objects'' ''objects/'',
           emit (EvIterKeyRange device ''objects'' ''objects/'') s1))"

text \<open>The body of \<open>for chunk in df\<close>; the md5 object is the content it has been fed.\<close>

fun read_chunks ::
  "world \<Rightarrow> device \<Rightarrow> key \<Rightarrow> chunk list \<Rightarrow> string \<Rightarrow> nat \<Rightarrow> auditor \<Rightarrow> (string \<times> nat) \<times> auditor" where
  "read_chunks w device head_key [] etag sz s = ((etag, sz), s)"
| "read_chunks w device head_key (chunk # rest) etag sz s =
     (let s1 = emit (EvReadChunk device head_key chunk) s;
          chunk_len = length chunk;
          etag' = etag @ chunk;
          sz' = sz + chunk_len;
          running = w_ratelimit_sleep w (trace s1) (bytes_running_time s1)
                      (max_bytes_per_second s1) chunk_len;
          s2 = emit (EvRateLimit (bytes_running_time s1) (max_bytes_per_second s1) chunk_len) s1;
          s3 = s2\<lparr>bytes_running_time := running,
                  bytes_processed := bytes_processed s2 + int chunk_len,
                  total_bytes_processed := total_bytes_processed s2 + int chunk_len\<rparr>
      in read_chunks w device head_key rest etag' sz' s3)"

definition quarantine :: "world \<Rightarrow> device \<Rightarrow> key \<Rightarrow> auditor \<Rightarrow> bool result \<times> auditor" where
  "quarantine w device head_key s =
     (let s1 = emit (EvQuarantine device head_key) s in
      case w_quarantine w (trace s) device head_key of
        Some e \<Rightarrow> (Raised e, s1)
      | None \<Rightarrow> (Normal False, s1))"

text \<open>
  \<open>_audit_object\<close>, in three parts: the comparisons after the stream is exhausted
  (lines 110 to 124), the \<open>else\<close> branch of the \<open>try\<close> (lines 96 to 124), and the function.
\<close>

definition compare_metadata ::
  "world \<Rightarrow> device \<Rightarrow> key \<Rightarrow> (string \<rightharpoonup> string) \<Rightarrow> string \<Rightarrow> nat \<Rightarrow> auditor \<Rightarrow> bool result \<times> auditor" where
  "compare_metadata w device head_key metadata etag sz s =
     (case py_int (metadata ''Content-Length'') of
        Inl e \<Rightarrow> (Raised e, s)
      | Inr content_length \<Rightarrow>
          (if int sz \<noteq> content_length then
             quarantine w device head_key
               (emit (EvLog (LogSizeMismatch head_key sz (metadata ''Content-Length''))) s)
           else
             (let got_etag = w_md5_hexdigest w etag;
                  expected_etag = metadata ''ETag''
              in if Some got_etag \<noteq> expected_etag then
                   quarantine w device head_key
                     (emit (EvLog (LogEtagMismatch head_key got_etag expected_etag)) s)
                 else (Normal True, s))))"

definition audit_opened ::
  "world \<Rightarrow> device \<Rightarrow> key \<Rightarrow> opened_object \<Rightarrow> auditor \<Rightarrow> bool result \<times> auditor" where
  "audit_opened w device head_key f s =
     (case ob_metadata f of
        Inl e \<Rightarrow> (Raised e, s)
      | Inr metadata \<Rightarrow>
          (case read_chunks w device head_key (ob_chunks f) [] 0 s of
             ((etag, sz), s1) \<Rightarrow>
               (case ob_stream_end f of
                  Some e \<Rightarrow> (Raised e, s1)
                | None \<Rightarrow> compare_metadata w device head_key metadata etag sz s1)))"

definition audit_object_priv :: "world \<Rightarrow> device \<Rightarrow> key \<Rightarrow> auditor \<Rightarrow> bool result \<times> auditor" where
  "audit_object_priv w device head_key s =
     (let s0 = emit (EvOpen device head_key) s in
      case w_open w (trace s) device head_key of
        GetDiskfileRaises e \<Rightarrow> (Raised e, s0)
      | OpenRaises e \<Rightarrow>
          (if e = DiskFileNotExist then (Normal True, emit (EvLog (LogNotExist head_key)) s0)
           else (Raised e, s0))
      | Opened f \<Rightarrow> audit_opened w device head_key f s0)"

text \<open>\<open>audit_object\<close>: \<open>except Exception\<close> turns an exception into the result False.\<close>

definition audit_object :: "world \<Rightarrow> device \<Rightarrow> key \<Rightarrow> auditor \<Rightarrow> bool result \<times> auditor" where
  "audit_object w device location s =
     (case audit_object_priv w device location s of
        (Normal success, s1) \<Rightarrow> (Normal success, s1)
      | (Raised e, s1) \<Rightarrow>
          (if is_Exception e
           then (Normal False, emit (EvLog (LogUnhandledObject device location)) s1)
           else (Raised e, s1)))"

text \<open>\<open>_audit_device\<close>: the loop over the keys the generator yields, then the generator's end.\<close>

fun audit_locations :: "world \<Rightarrow> device \<Rightarrow> key list \<Rightarrow> auditor \<Rightarrow> unit result \<times> auditor" where
  "audit_locations w device [] s = (Normal (), s)"
| "audit_locations w device (location # rest) s =
     (case audit_object w device location (incr ''found_objects'' s) of
        (Raised e, s1) \<Rightarrow> (Raised e, s1)
      | (Normal success, s1) \<Rightarrow>
          audit_locations w device rest
            (if success then incr ''success'' s1 else incr ''failures'' s1))"

definition audit_device_priv :: "world \<Rightarrow> device \<Rightarrow> auditor \<Rightarrow> unit result \<times> auditor" where
  "audit_device_priv w device s =
     (case find_objects_priv w device s of
        ((keys, ending), s0) \<Rightarrow>
          (case audit_locations w device keys s0 of
             (Raised e, s1) \<Rightarrow> (Raised e, s1)
           | (Normal u, s1) \<Rightarrow>
               (case ending of None \<Rightarrow> (Normal (), s1) | Some e \<Rightarrow> (Raised e, s1))))"

text \<open>\<open>audit_device\<close>.\<close>

definition audit_device :: "world \<Rightarrow> device \<Rightarrow> auditor \<Rightarrow> unit result \<times> auditor" where
  "audit_device w device s =
     (case audit_device_priv w device s of
        (Raised e, s1) \<Rightarrow>
          (if e = DiskFileDeviceUnavailable
           then (Normal (), incr ''device.failures'' (emit (EvLog (LogUnableToConnect device)) s1))
           else if is_Exception e
           then (Normal (), incr ''device.failures'' (emit (EvLog (LogUnhandledDevice device)) s1))
           else (Raised e, s1))
      | (Normal u, s1) \<Rightarrow> (Normal (), incr ''device.success'' s1))"

text \<open>\<open>run_once\<close>; \<open>override_devices\<close> is what \<open>list_from_csv\<close> returned.\<close>

fun audit_devices :: "world \<Rightarrow> device list \<Rightarrow> auditor \<Rightarrow> unit result \<times> auditor" where
  "audit_devices w [] s = (Normal (), s)"
| "audit_devices w (device # rest) s =
     (case audit_device w device s of
        (Raised e, s1) \<Rightarrow> (Raised e, s1)
      | (Normal u, s1) \<Rightarrow> audit_devices w rest s1)"

definition sweep :: "world \<Rightarrow> device list \<Rightarrow> auditor \<Rightarrow> unit result \<times> auditor" where
  "sweep w devices s =
     (let s1 = emit (EvLog (LogStartingSweep devices)) s in
      case read_time w s1 of
        (start, s2) \<Rightarrow>
          (case audit_devices w devices s2 of
             (Raised e, s3) \<Rightarrow> (Raised e, s3)
           | (Normal u, s3) \<Rightarrow>
               (case read_time w s3 of
                  (now, s4) \<Rightarrow>
                    (Normal (),
                     emit (EvLog (LogFinishedSweep devices (w_fsub w now start) (stats s4))) s4))))"

definition run_once :: "world \<Rightarrow> device list \<Rightarrow> auditor \<Rightarrow> unit result \<times> auditor" where
  "run_once w override_devices s =
     (let s0 = reset_stats s in
      if override_devices \<noteq> [] then sweep w override_devices s0
      else (case get_devices_priv w s0 of
              (Raised e, s1) \<Rightarrow> (Raised e, s1)
            | (Normal devices, s1) \<Rightarrow> sweep w (w_set_iter w devices) s1))"

text \<open>
  \<open>run_forever\<close>: one iteration of \<open>while True\<close>, and the loop with fuel. The loop has no
  exit: it ends by an exception (\<open>Some e\<close>) or not at all (\<open>None\<close> when the fuel is used up).
\<close>

definition run_forever_iteration :: "world \<Rightarrow> device list \<Rightarrow> auditor \<Rightarrow> unit result \<times> auditor" where
  "run_forever_iteration w override_devices s =
     (case read_time w s of
        (begin, s1) \<Rightarrow>
          (case run_once w override_devices (emit (EvLog LogBeginSweep) s1) of
             (Raised e, s2) \<Rightarrow> (Raised e, s2)
           | (Normal u, s2) \<Rightarrow>
               (case read_time w s2 of
                  (now, s3) \<Rightarrow>
                    (let elapsed = w_fsub w now begin;
                         s4 = emit (EvLog (LogSweepCompleted elapsed)) s3;
                         s5 = emit (EvRecon ''object_audit_sweep'' elapsed) s4;
                         s6 = (if elapsed < interval s5
                               then emit (EvSleep (w_fsub w (interval s5) elapsed)) s5
                               else s5)
                     in (Normal (), reset_stats s6)))))"

fun run_forever_loop :: "nat \<Rightarrow> world \<Rightarrow> device list \<Rightarrow> auditor \<Rightarrow> exn option \<times> auditor" where
  "run_forever_loop 0 w override_devices s = (None, s)"
| "run_forever_loop (Suc fuel) w override_devices s =
     (case run_forever_iteration w override_devices s of
        (Raised e, s1) \<Rightarrow> (Some e, s1)
      | (Normal u, s1) \<Rightarrow> run_forever_loop fuel w override_devices s1)"

definition run_forever :: "nat \<Rightarrow> world \<Rightarrow> device list \<Rightarrow> auditor \<Rightarrow> exn option \<times> auditor" where
  "run_forever fuel w override_devices s =
     run_forever_loop fuel w override_devices
       (emit (EvSleep (w_fmul w (w_random w (trace s)) (interval s))) (emit EvRandom s))"

subsection \<open>What a trace shows\<close>

text \<open>The calls to \<open>df.quarantine()\<close>, in order.\<close>

fun quarantine_calls :: "event list \<Rightarrow> (device \<times> key) list" where
  "quarantine_calls [] = []"
| "quarantine_calls (EvQuarantine d k # es) = (d, k) # quarantine_calls es"
| "quarantine_calls (e # es) = quarantine_calls es"

text \<open>The devices whose audit was started (each starts by connecting), in order.\<close>

fun audited_devices :: "event list \<Rightarrow> device list" where
  "audited_devices [] = []"
| "audited_devices (EvConnect d # es) = d # audited_devices es"
| "audited_devices (e # es) = audited_devices es"

text \<open>The chunks read from objects, in order.\<close>

fun chunk_reads :: "event list \<Rightarrow> (device \<times> key \<times> chunk) list" where
  "chunk_reads [] = []"
| "chunk_reads (EvReadChunk d k c # es) = (d, k, c) # chunk_reads es"
| "chunk_reads (e # es) = chunk_reads es"

text \<open>The \<open>max_rate\<close> argument of every call to \<open>ratelimit_sleep\<close>, in order.\<close>

fun ratelimit_rates :: "event list \<Rightarrow> real list" where
  "ratelimit_rates [] = []"
| "ratelimit_rates (EvRateLimit running rate n # es) = rate # ratelimit_rates es"
| "ratelimit_rates (e # es) = ratelimit_rates es"

text \<open>The warnings about a mismatch, in order.\<close>

fun mismatch_logs :: "event list \<Rightarrow> log_record list" where
  "mismatch_logs [] = []"
| "mismatch_logs (EvLog (LogSizeMismatch k n v) # es) = LogSizeMismatch k n v # mismatch_logs es"
| "mismatch_logs (EvLog (LogEtagMismatch k g v) # es) = LogEtagMismatch k g v # mismatch_logs es"
| "mismatch_logs (e # es) = mismatch_logs es"

text \<open>The events a run added to the trace it started from.\<close>

definition new_events :: "auditor \<Rightarrow> auditor \<Rightarrow> event list" where
  "new_events s s' = drop (length (trace s)) (trace s')"

subsection \<open>Predicates of the claims\<close>

text \<open>
  An opened object is intact when its stream ends normally, the size streamed is its
  Content-Length and the hex digest of the content streamed is its ETag.
\<close>

definition object_intact :: "world \<Rightarrow> opened_object \<Rightarrow> bool" where
  "object_intact w f =
     (case ob_metadata f of
        Inl e \<Rightarrow> False
      | Inr metadata \<Rightarrow>
          ob_stream_end f = None \<and>
          py_int (metadata ''Content-Length'') = Inr (int (length (concat (ob_chunks f)))) \<and>
          metadata ''ETag'' = Some (w_md5_hexdigest w (concat (ob_chunks f))))"

text \<open>No object of the world is corrupted: whatever opens is intact.\<close>

definition uncorrupted :: "world \<Rightarrow> bool" where
  "uncorrupted w = (\<forall>tr d k f. w_open w tr d k = Opened f \<longrightarrow> object_intact w f)"

text \<open>
  The devices, their objects and the metadata do not change: what the ring, the
  connection, the key range and the disk file answer does not depend on the trace.
\<close>

definition unchanged :: "world \<Rightarrow> bool" where
  "unchanged w =
     (\<forall>tr tr'. w_object_ring_devs w tr = w_object_ring_devs w tr' \<and>
               w_get_connection w tr = w_get_connection w tr' \<and>
               w_iterKeyRange w tr = w_iterKeyRange w tr' \<and>
               w_open w tr = w_open w tr')"

text \<open>The counters the statistics are made of, compared one by one.\<close>

definition counters_le :: "auditor \<Rightarrow> auditor \<Rightarrow> bool" where
  "counters_le s s' =
     ((\<forall>k. stats s k \<le> stats s' k) \<and>
      bytes_processed s \<le> bytes_processed s' \<and>
      total_bytes_processed s \<le> total_bytes_processed s' \<and>
      total_files_processed s \<le> total_files_processed s')"

definition counters_zero :: "auditor \<Rightarrow> bool" where
  "counters_zero s =
     ((\<forall>k. stats s k = 0) \<and> bytes_processed s = 0 \<and> total_bytes_processed s = 0 \<and>
      total_files_processed s = 0)"

text \<open>
  A later state of the same auditor: the configuration is the same, the trace has grown
  and no counter has gone down.
\<close>

definition evolves :: "auditor \<Rightarrow> auditor \<Rightarrow> bool" where
  "evolves s s' =
     (swift_dir s' = swift_dir s \<and>
      max_files_per_second s' = max_files_per_second s \<and>
      max_bytes_per_second s' = max_bytes_per_second s \<and>
      interval s' = interval s \<and>
      prefix (trace s) (trace s') \<and>
      counters_le s s')"

text \<open>The names a list of rings contributes: the \<open>device\<close> of every entry that is neither null nor empty.\<close>

definition ring_names :: "(exn + ring_dev list) list \<Rightarrow> device set" where
  "ring_names rings =
     {name. \<exists>devs dict. Inr devs \<in> set rings \<and> Some dict \<in> set devs \<and> dict \<noteq> [] \<and>
                         map_of dict ''device'' = Some name}"

subsection \<open>A world to run the auditor in\<close>

definition example_conf :: conf where
  "example_conf =
     \<lparr>conf_swift_dir = None, conf_files_per_second = None, conf_bytes_per_second = None\<rparr>"

text \<open>
  A stand-in for MD5 that agrees with it on \<open>hello world\<close>, on \<open>hello w0rld\<close> and on the
  empty content; no object below whose digest is compared has another content.
\<close>

definition example_md5 :: "string \<Rightarrow> string" where
  "example_md5 content =
     (if content = ''hello world'' then ''5eb63bbbe01eeed093cb22bb8f5acdc3''
      else if content = ''hello w0rld'' then ''e036b5bcaf8491c21b043d71e6e3a9bb''
      else ''d41d8cd98f00b204e9800998ecf8427e'')"

definition hello_metadata :: "string \<rightharpoonup> string" where
  "hello_metadata =
     [''Content-Length'' \<mapsto> ''11'', ''ETag'' \<mapsto> ''5eb63bbbe01eeed093cb22bb8f5acdc3'']"

definition hello_intact :: opened_object where
  "hello_intact =
     \<lparr>ob_metadata = Inr hello_metadata, ob_chunks = [''hello '', ''world''],
      ob_stream_end = None\<rparr>"

definition hello_truncated :: opened_object where
  "hello_truncated =
     \<lparr>ob_metadata = Inr hello_metadata, ob_chunks = [''hello '', ''worl''],
      ob_stream_end = None\<rparr>"

definition hello_altered :: opened_object where
  "hello_altered =
     \<lparr>ob_metadata = Inr hello_metadata, ob_chunks = [''hello '', ''w0rld''],
      ob_stream_end = None\<rparr>"

definition example_open :: "event list \<Rightarrow> device \<Rightarrow> key \<Rightarrow> open_result" where
  "example_open tr d k =
     (if k = ''objects/abc'' then Opened hello_intact
      else if k = ''objects/short'' then Opened hello_truncated
      else if k = ''objects/bad'' then Opened hello_altered
      else OpenRaises DiskFileNotExist)"

definition example_rings :: "(exn + ring_dev list) list" where
  "example_rings =
     [Inr [Some [(''id'', ''0''), (''device'', ''127.0.0.1:8123'')], None, Some []],
      Inr [Some [(''id'', ''0''), (''device'', ''127.0.0.1:8123'')]]]"

definition example_world :: world where
  "example_world =
     \<lparr>w_time = (\<lambda>tr. real (length tr)),
      w_random = (\<lambda>tr. 1 / 2),
      w_fsub = (\<lambda>a b. a - b),
      w_fmul = (\<lambda>a b. a * b),
      w_ratelimit_sleep = (\<lambda>tr running rate n. running + 1000 * (real n / rate)),
      w_md5_hexdigest = example_md5,
      w_object_ring_devs = (\<lambda>tr dir. example_rings),
      w_set_iter = sorted_list_of_set,
      w_get_connection =
        (\<lambda>tr d. if d = ''127.0.0.1:8124'' then Some DiskFileDeviceUnavailable else None),
      w_iterKeyRange =
        (\<lambda>tr d start_key end_key.
           ([''objects/abc'', ''objects/gone'', ''objects/short'', ''objects/bad''], None)),
      w_open = example_open,
      w_quarantine = (\<lambda>tr d k. None)\<rparr>"

text \<open>The same world with every device empty, and with healthy objects only.\<close>

definition empty_world :: world where
  "empty_world = example_world\<lparr>w_iterKeyRange := (\<lambda>tr d start_key end_key. ([], None))\<rparr>"

definition healthy_open :: "event list \<Rightarrow> device \<Rightarrow> key \<Rightarrow> open_result" where
  "healthy_open tr d k =
     (if k = ''objects/abc'' then Opened hello_intact else OpenRaises DiskFileNotExist)"

definition healthy_world :: world where
  "healthy_world =
     example_world
       \<lparr>w_iterKeyRange := (\<lambda>tr d start_key end_key. ([''objects/abc'', ''objects/gone''], None)),
        w_open := healthy_open\<rparr>"

text \<open>\<open>df.quarantine()\<close> on this object returns or raises inside the \<open>Exception\<close> hierarchy.\<close>

definition quarantine_contained :: "world \<Rightarrow> device \<Rightarrow> key \<Rightarrow> bool" where
  "quarantine_contained w d k =
     (\<forall>tr. case w_quarantine w tr d k of None \<Rightarrow> True | Some e \<Rightarrow> is_Exception e)"

text \<open>The invariant of the object counters.\<close>

definition counted :: "auditor \<Rightarrow> bool" where
  "counted s = (stats s ''found_objects'' = stats s ''success'' + stats s ''failures'')"

text \<open>A result that \<open>except Exception\<close> lets the caller continue after.\<close>

fun contained :: "'a result \<Rightarrow> bool" where
  "contained (Normal v) = True"
| "contained (Raised e) = is_Exception e"

text \<open>The arguments of \<open>time.sleep\<close>, in order.\<close>

fun sleep_calls :: "event list \<Rightarrow> real list" where
  "sleep_calls [] = []"
| "sleep_calls (EvSleep t # es) = t # sleep_calls es"
| "sleep_calls (e # es) = sleep_calls es"

text \<open>A world whose clock runs ten times faster than the one of \<open>example_world\<close>.\<close>

definition slow_world :: world where
  "slow_world = empty_world\<lparr>w_time := (\<lambda>tr. 10 * real (length tr))\<rparr>"

text \<open>The auditor with another value of \<open>max_files_per_second\<close>.\<close>

definition with_files_per_second :: "real \<Rightarrow> auditor \<Rightarrow> auditor" where
  "with_files_per_second x s = s\<lparr>max_files_per_second := x\<rparr>"

text \<open>
  Since the state \<open>s0\<close>, every call to \<open>ratelimit_sleep\<close> was given the rate \<open>b\<close>, which
  is the auditor's \<open>max_bytes_per_second\<close>.
\<close>

definition rates_from :: "real \<Rightarrow> auditor \<Rightarrow> auditor \<Rightarrow> bool" where
  "rates_from b s0 s =
     (max_bytes_per_second s = b \<and> prefix (trace s0) (trace s) \<and>
      set (ratelimit_rates (new_events s0 s)) \<subseteq> {b})"

text \<open>What the audit of an object returns in a world without corruption, from what opening it gives.\<close>

definition intact_outcome :: "open_result \<Rightarrow> bool result" where
  "intact_outcome r =
     (case r of
        GetDiskfileRaises e \<Rightarrow> (if is_Exception e then Normal False else Raised e)
      | OpenRaises e \<Rightarrow>
          (if e = DiskFileNotExist then Normal True
           else if is_Exception e then Normal False else Raised e)
      | Opened f \<Rightarrow> Normal True)"

text \<open>
  What opening an object gives raises nothing outside the \<open>Exception\<close> hierarchy: not
  from \<open>get_diskfile_from_audit_location\<close>, \<open>open\<close> or \<open>get_metadata\<close>, and not from the
  iterator.
\<close>

definition open_contained :: "open_result \<Rightarrow> bool" where
  "open_contained r =
     (case r of
        GetDiskfileRaises e \<Rightarrow> is_Exception e
      | OpenRaises e \<Rightarrow> is_Exception e
      | Opened f \<Rightarrow>
          (case ob_metadata f of Inl e \<Rightarrow> is_Exception e | Inr metadata \<Rightarrow> True) \<and>
          (case ob_stream_end f of None \<Rightarrow> True | Some e \<Rightarrow> is_Exception e))"

text \<open>The same of every object of a list of keys, whatever has happened, and of its \<open>quarantine\<close>.\<close>

definition objects_contained :: "world \<Rightarrow> device \<Rightarrow> key list \<Rightarrow> bool" where
  "objects_contained w d ks =
     list_all (\<lambda>k. (\<forall>tr. open_contained (w_open w tr d k)) \<and> quarantine_contained w d k) ks"

text \<open>
  A world where the audit of every object fails: the disk file cannot be made, the open
  raises, the stream breaks, the Content-Length is missing, and the object is truncated
  and its \<open>quarantine\<close> raises.
\<close>

definition raising_open :: "event list \<Rightarrow> device \<Rightarrow> key \<Rightarrow> open_result" where
  "raising_open tr d k =
     (if k = ''objects/a'' then GetDiskfileRaises (OtherException ''OSError'')
      else if k = ''objects/b'' then OpenRaises DiskFileDeviceUnavailable
      else if k = ''objects/c'' then
        Opened \<lparr>ob_metadata = Inr hello_metadata, ob_chunks = [''hello ''],
                ob_stream_end = Some (OtherException ''IOError'')\<rparr>
      else if k = ''objects/d'' then
        Opened \<lparr>ob_metadata = Inr Map.empty, ob_chunks = [''hello '', ''world''],
                ob_stream_end = None\<rparr>
      else Opened hello_truncated)"

definition raising_keys :: "key list" where
  "raising_keys = [''objects/a'', ''objects/b'', ''objects/c'', ''objects/d'', ''objects/e'']"

definition raising_world :: world where
  "raising_world =
     example_world
       \<lparr>w_iterKeyRange := (\<lambda>tr d start_key end_key. (raising_keys, None)),
        w_open := raising_open,
        w_quarantine := (\<lambda>tr d k. Some (OtherException ''OSError''))\<rparr>"

section \<open>Properties\<close>

subsection \<open>Later states\<close>

lemma evolves_refl [simp]: "evolves s s"
  by (simp add: evolves_def counters_le_def)

lemma evolves_trans: "evolves s s' \<Longrightarrow> evolves s' s'' \<Longrightarrow> evolves s s''"
  unfolding evolves_def counters_le_def
  by (auto intro: order_trans prefix_order.order_trans)

lemma evolves_emit: "evolves s0 s \<Longrightarrow> evolves s0 (emit e s)"
  by (erule evolves_trans) (simp add: evolves_def counters_le_def emit_def)

lemma evolves_incr: "evolves s0 s \<Longrightarrow> evolves s0 (incr k s)"
  by (erule evolves_trans) (simp add: evolves_def counters_le_def incr_def)

lemma read_chunks_evolves:
  "evolves s0 s \<Longrightarrow> read_chunks w d k cs etag n s = (r, s') \<Longrightarrow> evolves s0 s'"
proof (induction cs arbitrary: etag n s)
  case Nil
  then show ?case by simp
next
  case (Cons c cs)
  let ?s3 = "(emit (EvRateLimit (bytes_running_time s) (max_bytes_per_second s) (length c))
               (emit (EvReadChunk d k c) s))
             \<lparr>bytes_running_time :=
                 w_ratelimit_sleep w (trace s @ [EvReadChunk d k c]) (bytes_running_time s)
                   (max_bytes_per_second s) (length c),
              bytes_processed := bytes_processed s + int (length c),
              total_bytes_processed := total_bytes_processed s + int (length c)\<rparr>"
  have "evolves s ?s3"
    by (simp add: evolves_def counters_le_def emit_def)
  with Cons.prems(1) have "evolves s0 ?s3"
    by (rule evolves_trans)
  moreover have "read_chunks w d k cs (etag @ c) (n + length c) ?s3 = (r, s')"
    using Cons.prems(2) by (simp add: Let_def emit_def)
  ultimately show ?case
    by (rule Cons.IH)
qed

lemma quarantine_evolves:
  "evolves s0 s \<Longrightarrow> quarantine w d k s = (r, s') \<Longrightarrow> evolves s0 s'"
  by (auto simp: quarantine_def Let_def evolves_emit split: option.splits)

lemma compare_metadata_evolves:
  "evolves s0 s \<Longrightarrow> compare_metadata w d k md etag n s = (r, s') \<Longrightarrow> evolves s0 s'"
  by (auto simp: compare_metadata_def Let_def split: sum.splits if_splits
           intro: quarantine_evolves [rotated] evolves_emit)

lemma audit_opened_evolves:
  "evolves s0 s \<Longrightarrow> audit_opened w d k f s = (r, s') \<Longrightarrow> evolves s0 s'"
  by (auto simp: audit_opened_def split: sum.splits prod.splits option.splits
           intro: compare_metadata_evolves [rotated] read_chunks_evolves [rotated])

lemma audit_object_priv_evolves:
  "evolves s0 s \<Longrightarrow> audit_object_priv w d k s = (r, s') \<Longrightarrow> evolves s0 s'"
  by (auto simp: audit_object_priv_def Let_def split: open_result.splits if_splits
           intro: audit_opened_evolves [rotated] evolves_emit)

lemma audit_object_evolves:
  "evolves s0 s \<Longrightarrow> audit_object w d k s = (r, s') \<Longrightarrow> evolves s0 s'"
  by (auto simp: audit_object_def split: prod.splits result.splits if_splits
           intro: audit_object_priv_evolves [rotated] evolves_emit)

lemma audit_locations_evolves:
  "evolves s0 s \<Longrightarrow> audit_locations w d ks s = (r, s') \<Longrightarrow> evolves s0 s'"
proof (induction ks arbitrary: s)
  case Nil
  then show ?case by simp
next
  case (Cons k ks)
  obtain r1 s1 where a: "audit_object w d k (incr ''found_objects'' s) = (r1, s1)"
    by (cases "audit_object w d k (incr ''found_objects'' s)")
  have e1: "evolves s0 s1"
    using audit_object_evolves [OF evolves_incr [OF Cons.prems(1)] a] .
  show ?case
  proof (cases r1)
    case (Normal success)
    with a Cons.prems(2)
    have "audit_locations w d ks (if success then incr ''success'' s1 else incr ''failures'' s1)
            = (r, s')"
      by simp
    moreover have "evolves s0 (if success then incr ''success'' s1 else incr ''failures'' s1)"
      using e1 by (simp add: evolves_incr)
    ultimately show ?thesis
      using Cons.IH by blast
  next
    case (Raised e)
    with a Cons.prems(2) e1 show ?thesis by simp
  qed
qed

lemma find_objects_priv_evolves:
  "evolves s0 s \<Longrightarrow> find_objects_priv w d s = (r, s') \<Longrightarrow> evolves s0 s'"
  by (auto simp: find_objects_priv_def Let_def split: option.splits intro: evolves_emit)

lemma audit_device_priv_evolves:
  "evolves s0 s \<Longrightarrow> audit_device_priv w d s = (r, s') \<Longrightarrow> evolves s0 s'"
  by (auto simp: audit_device_priv_def split: prod.splits result.splits option.splits
           intro: find_objects_priv_evolves [rotated] audit_locations_evolves [rotated])

lemma audit_device_evolves:
  "evolves s0 s \<Longrightarrow> audit_device w d s = (r, s') \<Longrightarrow> evolves s0 s'"
  by (auto simp: audit_device_def split: prod.splits result.splits if_splits
           intro: audit_device_priv_evolves [rotated] evolves_emit evolves_incr)

lemma audit_devices_evolves:
  "evolves s0 s \<Longrightarrow> audit_devices w ds s = (r, s') \<Longrightarrow> evolves s0 s'"
proof (induction ds arbitrary: s)
  case Nil
  then show ?case by simp
next
  case (Cons d ds)
  obtain r1 s1 where a: "audit_device w d s = (r1, s1)"
    by (cases "audit_device w d s")
  have e1: "evolves s0 s1"
    using audit_device_evolves [OF Cons.prems(1) a] .
  show ?case
  proof (cases r1)
    case (Normal u)
    with a Cons.prems(2) have "audit_devices w ds s1 = (r, s')" by simp
    with e1 show ?thesis using Cons.IH by blast
  next
    case (Raised e)
    with a Cons.prems(2) e1 show ?thesis by simp
  qed
qed

lemma sweep_evolves:
  "evolves s0 s \<Longrightarrow> sweep w ds s = (r, s') \<Longrightarrow> evolves s0 s'"
  by (auto simp: sweep_def read_time_def Let_def split: prod.splits result.splits
           intro!: evolves_emit intro: audit_devices_evolves [rotated])

lemma get_devices_priv_evolves:
  "evolves s0 s \<Longrightarrow> get_devices_priv w s = (r, s') \<Longrightarrow> evolves s0 s'"
  by (auto simp: get_devices_priv_def Let_def split: sum.splits intro: evolves_emit)

lemma run_once_evolves:
  assumes "run_once w ov s = (r, s')"
  shows "evolves (reset_stats s) s'"
proof (cases "ov = []")
  case False
  with assms have "sweep w ov (reset_stats s) = (r, s')"
    by (simp add: run_once_def)
  then show ?thesis
    by (rule sweep_evolves [OF evolves_refl])
next
  case True
  obtain r1 s1 where g: "get_devices_priv w (reset_stats s) = (r1, s1)"
    by (cases "get_devices_priv w (reset_stats s)")
  have e1: "evolves (reset_stats s) s1"
    by (rule get_devices_priv_evolves [OF evolves_refl g])
  show ?thesis
  proof (cases r1)
    case (Normal devices)
    with assms True g have "sweep w (w_set_iter w devices) s1 = (r, s')"
      by (simp add: run_once_def)
    then show ?thesis
      by (rule sweep_evolves [OF e1])
  next
    case (Raised e)
    with assms True g e1 show ?thesis
      by (simp add: run_once_def)
  qed
qed

lemma reset_stats_conf:
  "swift_dir (reset_stats s) = swift_dir s"
  "max_files_per_second (reset_stats s) = max_files_per_second s"
  "max_bytes_per_second (reset_stats s) = max_bytes_per_second s"
  "interval (reset_stats s) = interval s"
  "trace (reset_stats s) = trace s"
  by (simp_all add: reset_stats_def)

subsection \<open>Observations\<close>

lemma quarantine_calls_append [simp]:
  "quarantine_calls (xs @ ys) = quarantine_calls xs @ quarantine_calls ys"
  by (induction xs rule: quarantine_calls.induct) simp_all

lemma audited_devices_append [simp]:
  "audited_devices (xs @ ys) = audited_devices xs @ audited_devices ys"
  by (induction xs rule: audited_devices.induct) simp_all

lemma chunk_reads_append [simp]:
  "chunk_reads (xs @ ys) = chunk_reads xs @ chunk_reads ys"
  by (induction xs rule: chunk_reads.induct) simp_all

lemma ratelimit_rates_append [simp]:
  "ratelimit_rates (xs @ ys) = ratelimit_rates xs @ ratelimit_rates ys"
  by (induction xs rule: ratelimit_rates.induct) simp_all

lemma mismatch_logs_append [simp]:
  "mismatch_logs (xs @ ys) = mismatch_logs xs @ mismatch_logs ys"
  by (induction xs rule: mismatch_logs.induct) simp_all

lemma trace_emit [simp]: "trace (emit e s) = trace s @ [e]"
  by (simp add: emit_def)

lemma trace_incr [simp]: "trace (incr k s) = trace s"
  by (simp add: incr_def)

lemma stats_emit [simp]: "stats (emit e s) = stats s"
  by (simp add: emit_def)

lemma stats_incr [simp]: "stats (incr k s) = (stats s)(k := stats s k + 1)"
  by (simp add: incr_def)

subsection \<open>Reading the chunks\<close>

lemma read_chunks_result:
  "fst (read_chunks w d k cs etag n s) = (etag @ concat cs, n + length (concat cs))"
  by (induction cs arbitrary: etag n s) (simp_all add: Let_def)

lemma read_chunks_stats:
  "stats (snd (read_chunks w d k cs etag n s)) = stats s"
  by (induction cs arbitrary: etag n s) (simp_all add: Let_def emit_def)

lemma read_chunks_quarantine_calls:
  "quarantine_calls (trace (snd (read_chunks w d k cs etag n s))) = quarantine_calls (trace s)"
  by (induction cs arbitrary: etag n s) (simp_all add: Let_def emit_def)

lemma read_chunks_mismatch_logs:
  "mismatch_logs (trace (snd (read_chunks w d k cs etag n s))) = mismatch_logs (trace s)"
  by (induction cs arbitrary: etag n s) (simp_all add: Let_def emit_def)

lemma read_chunks_audited_devices:
  "audited_devices (trace (snd (read_chunks w d k cs etag n s))) = audited_devices (trace s)"
  by (induction cs arbitrary: etag n s) (simp_all add: Let_def emit_def)

lemma read_chunks_md5:
  "read_chunks (w\<lparr>w_md5_hexdigest := h\<rparr>) d k cs etag n s = read_chunks w d k cs etag n s"
  by (induction cs arbitrary: etag n s) (simp_all add: Let_def)

subsection \<open>One object\<close>

lemma audit_opened_intact:
  assumes "object_intact w f"
  shows "audit_opened w d k f s = (Normal True, snd (read_chunks w d k (ob_chunks f) [] 0 s))"
  using assms read_chunks_result [of w d k "ob_chunks f" "[]" 0 s]
  by (auto simp: audit_opened_def compare_metadata_def object_intact_def Let_def
           split: sum.splits prod.splits)

lemma audit_object_priv_intact:
  assumes "w_open w (trace s) d k = Opened f" and "object_intact w f"
  shows "audit_object_priv w d k s =
           (Normal True, snd (read_chunks w d k (ob_chunks f) [] 0 (emit (EvOpen d k) s)))"
  using assms by (simp add: audit_object_priv_def Let_def audit_opened_intact)

lemma audit_object_intact:
  assumes "w_open w (trace s) d k = Opened f" and "object_intact w f"
  shows "audit_object w d k s =
           (Normal True, snd (read_chunks w d k (ob_chunks f) [] 0 (emit (EvOpen d k) s)))"
  using assms by (simp add: audit_object_def audit_object_priv_intact)

lemma audit_locations_step:
  "fst (audit_object w d k (incr ''found_objects'' s)) = Normal b \<Longrightarrow>
   audit_locations w d (k # ks) s =
     audit_locations w d ks
       (incr (if b then ''success'' else ''failures'')
          (snd (audit_object w d k (incr ''found_objects'' s))))"
  by (cases "audit_object w d k (incr ''found_objects'' s)") simp

text \<open>
  Claim C1. An object that opens, whose streamed size is its Content-Length and whose
  streamed hex digest is its ETag, is verified successfully: \<open>_audit_object\<close> and
  \<open>audit_object\<close> return True, \<open>quarantine\<close> is not called, and the device loop counts
  the object in \<open>success\<close>.
\<close>

theorem verify_intact_object_succeeds:
  assumes "w_open w (trace s) device head_key = Opened f" and "object_intact w f"
  shows "fst (audit_object_priv w device head_key s) = Normal True \<and>
         fst (audit_object w device head_key s) = Normal True \<and>
         quarantine_calls (trace (snd (audit_object w device head_key s)))
           = quarantine_calls (trace s) \<and>
         audit_locations w device (head_key # rest) s
           = audit_locations w device rest
               (incr ''success'' (snd (audit_object w device head_key (incr ''found_objects'' s))))"
proof -
  have "w_open w (trace (incr ''found_objects'' s)) device head_key = Opened f"
    using assms(1) by simp
  then have "fst (audit_object w device head_key (incr ''found_objects'' s)) = Normal True"
    using assms(2) by (simp add: audit_object_intact)
  then have "audit_locations w device (head_key # rest) s
           = audit_locations w device rest
               (incr ''success'' (snd (audit_object w device head_key (incr ''found_objects'' s))))"
    using audit_locations_step [of w device head_key s True rest] by simp
  then show ?thesis
    using assms
    by (simp add: audit_object_intact audit_object_priv_intact read_chunks_quarantine_calls)
qed

lemma hello_intact_ok: "object_intact example_world hello_intact"
  by (simp add: object_intact_def hello_intact_def hello_metadata_def example_world_def
      example_md5_def py_int_def strip_def is_space_def parse_digits_def is_digit_def)

theorem verify_intact_object_succeeds_witness:
  "w_open example_world (trace (init example_conf)) ''127.0.0.1:8123'' ''objects/abc''
     = Opened hello_intact \<and>
   object_intact example_world hello_intact \<and>
   fst (audit_object_priv example_world ''127.0.0.1:8123'' ''objects/abc'' (init example_conf))
     = Normal True \<and>
   fst (audit_object example_world ''127.0.0.1:8123'' ''objects/abc'' (init example_conf))
     = Normal True \<and>
   quarantine_calls
     (trace (snd (audit_object example_world ''127.0.0.1:8123'' ''objects/abc''
                    (init example_conf)))) = []"
proof -
  have o: "w_open example_world (trace (init example_conf)) ''127.0.0.1:8123'' ''objects/abc''
             = Opened hello_intact"
    by (simp add: example_world_def example_open_def)
  have t: "quarantine_calls (trace (init example_conf)) = []"
    by (simp add: init_def reset_stats_def)
  show ?thesis
    using verify_intact_object_succeeds [OF o hello_intact_ok] o hello_intact_ok t
    by simp
qed

subsection \<open>A mismatch\<close>

lemma quarantine_eq:
  "quarantine w d k s =
     ((case w_quarantine w (trace s) d k of Some e \<Rightarrow> Raised e | None \<Rightarrow> Normal False),
      emit (EvQuarantine d k) s)"
  by (simp add: quarantine_def Let_def split: option.splits)

lemma audit_opened_compare:
  assumes "ob_metadata f = Inr metadata" and "ob_stream_end f = None"
  shows "audit_opened w d k f s =
           compare_metadata w d k metadata (concat (ob_chunks f)) (length (concat (ob_chunks f)))
             (snd (read_chunks w d k (ob_chunks f) [] 0 s))"
  using assms read_chunks_result [of w d k "ob_chunks f" "[]" 0 s]
  by (auto simp: audit_opened_def split: prod.splits)

lemma compare_metadata_size:
  assumes "py_int (metadata ''Content-Length'') = Inr content_length"
    and "content_length \<noteq> int n"
  shows "compare_metadata w d k metadata etag n s =
           quarantine w d k (emit (EvLog (LogSizeMismatch k n (metadata ''Content-Length''))) s)"
  using assms by (auto simp: compare_metadata_def)

lemma compare_metadata_etag:
  assumes "py_int (metadata ''Content-Length'') = Inr (int n)"
    and "metadata ''ETag'' \<noteq> Some (w_md5_hexdigest w etag)"
  shows "compare_metadata w d k metadata etag n s =
           quarantine w d k
             (emit (EvLog (LogEtagMismatch k (w_md5_hexdigest w etag) (metadata ''ETag''))) s)"
  using assms by (auto simp: compare_metadata_def Let_def)

lemma audit_object_after_quarantine:
  assumes "audit_object_priv w d k s = quarantine w d k sq"
    and "quarantine_contained w d k"
  shows "fst (audit_object w d k s) = Normal False \<and>
         quarantine_calls (trace (snd (audit_object w d k s)))
           = quarantine_calls (trace sq) @ [(d, k)] \<and>
         mismatch_logs (trace (snd (audit_object w d k s))) = mismatch_logs (trace sq)"
proof (cases "w_quarantine w (trace sq) d k")
  case None
  then show ?thesis
    using assms(1) by (simp add: audit_object_def quarantine_eq)
next
  case (Some e)
  moreover from this assms(2) have "is_Exception e"
    by (auto simp: quarantine_contained_def split: option.splits dest: spec [of _ "trace sq"])
  ultimately show ?thesis
    using assms(1) by (simp add: audit_object_def quarantine_eq)
qed

lemma compare_metadata_size_md5:
  assumes "py_int (metadata ''Content-Length'') = Inr content_length"
    and "content_length \<noteq> int n"
  shows "compare_metadata (w\<lparr>w_md5_hexdigest := h\<rparr>) d k metadata etag n s =
         compare_metadata w d k metadata etag n s"
  using assms by (simp add: compare_metadata_def quarantine_def)

lemma audit_object_size_md5:
  assumes "w_open w (trace s) d k = Opened f"
    and "ob_metadata f = Inr metadata" and "ob_stream_end f = None"
    and "py_int (metadata ''Content-Length'') = Inr content_length"
    and "content_length \<noteq> int (length (concat (ob_chunks f)))"
  shows "audit_object (w\<lparr>w_md5_hexdigest := h\<rparr>) d k s = audit_object w d k s"
  using assms
  by (simp add: audit_object_def audit_object_priv_def audit_opened_compare
      compare_metadata_size_md5 read_chunks_md5)

text \<open>
  Claim C2. An object that opens and streams to its end, whose Content-Length is an
  integer: when the streamed size differs from it, the object is quarantined exactly
  once, the warning is the one about the size, and the digest plays no part (the outcome
  is the same for every digest function, and nothing is assumed of the ETag); when the
  size matches and the streamed hex digest differs from the ETag, the object is
  quarantined exactly once and the warning is the one about the etag. In both cases
  \<open>audit_object\<close> returns False and the device loop counts the object in \<open>failures\<close>.
\<close>

theorem verify_mismatch_quarantines:
  assumes "w_open w (trace s) device head_key = Opened f"
    and "ob_metadata f = Inr metadata" and "ob_stream_end f = None"
    and "py_int (metadata ''Content-Length'') = Inr content_length"
    and "quarantine_contained w device head_key"
  shows "(content_length \<noteq> int (length (concat (ob_chunks f))) \<longrightarrow>
            fst (audit_object w device head_key s) = Normal False \<and>
            quarantine_calls (trace (snd (audit_object w device head_key s)))
              = quarantine_calls (trace s) @ [(device, head_key)] \<and>
            mismatch_logs (trace (snd (audit_object w device head_key s)))
              = mismatch_logs (trace s) @
                  [LogSizeMismatch head_key (length (concat (ob_chunks f)))
                     (metadata ''Content-Length'')] \<and>
            (\<forall>h. audit_object (w\<lparr>w_md5_hexdigest := h\<rparr>) device head_key s
                   = audit_object w device head_key s)) \<and>
         (content_length = int (length (concat (ob_chunks f))) \<and>
          metadata ''ETag'' \<noteq> Some (w_md5_hexdigest w (concat (ob_chunks f))) \<longrightarrow>
            fst (audit_object w device head_key s) = Normal False \<and>
            quarantine_calls (trace (snd (audit_object w device head_key s)))
              = quarantine_calls (trace s) @ [(device, head_key)] \<and>
            mismatch_logs (trace (snd (audit_object w device head_key s)))
              = mismatch_logs (trace s) @
                  [LogEtagMismatch head_key (w_md5_hexdigest w (concat (ob_chunks f)))
                     (metadata ''ETag'')]) \<and>
         (content_length \<noteq> int (length (concat (ob_chunks f))) \<or>
          metadata ''ETag'' \<noteq> Some (w_md5_hexdigest w (concat (ob_chunks f))) \<longrightarrow>
            audit_locations w device (head_key # rest) s
              = audit_locations w device rest
                  (incr ''failures''
                     (snd (audit_object w device head_key (incr ''found_objects'' s)))))"
proof -
  let ?content = "concat (ob_chunks f)"
  let ?s1 = "\<lambda>s. snd (read_chunks w device head_key (ob_chunks f) [] 0
                        (emit (EvOpen device head_key) s))"
  have priv: "audit_object_priv w device head_key t =
          compare_metadata w device head_key metadata ?content (length ?content) (?s1 t)"
    if "trace t = trace s" for t
    using assms(1-3) that by (simp add: audit_object_priv_def Let_def audit_opened_compare)
  have size: "fst (audit_object w device head_key t) = Normal False \<and>
            quarantine_calls (trace (snd (audit_object w device head_key t)))
              = quarantine_calls (trace s) @ [(device, head_key)] \<and>
            mismatch_logs (trace (snd (audit_object w device head_key t)))
              = mismatch_logs (trace s) @
                  [LogSizeMismatch head_key (length ?content) (metadata ''Content-Length'')]"
    if "content_length \<noteq> int (length ?content)" and "trace t = trace s" for t
    using audit_object_after_quarantine [OF _ assms(5), where s = t and sq =
        "emit (EvLog (LogSizeMismatch head_key (length ?content) (metadata ''Content-Length'')))
           (?s1 t)"] that priv [OF that(2)] assms(4)
    by (simp add: compare_metadata_size read_chunks_quarantine_calls read_chunks_mismatch_logs)
  have etag: "fst (audit_object w device head_key t) = Normal False \<and>
            quarantine_calls (trace (snd (audit_object w device head_key t)))
              = quarantine_calls (trace s) @ [(device, head_key)] \<and>
            mismatch_logs (trace (snd (audit_object w device head_key t)))
              = mismatch_logs (trace s) @
                  [LogEtagMismatch head_key (w_md5_hexdigest w ?content) (metadata ''ETag'')]"
    if "content_length = int (length ?content)"
      and "metadata ''ETag'' \<noteq> Some (w_md5_hexdigest w ?content)" and "trace t = trace s" for t
    using audit_object_after_quarantine [OF _ assms(5), where s = t and sq =
        "emit (EvLog (LogEtagMismatch head_key (w_md5_hexdigest w ?content) (metadata ''ETag'')))
           (?s1 t)"] that priv [OF that(3)] assms(4)
    by (simp add: compare_metadata_etag read_chunks_quarantine_calls read_chunks_mismatch_logs)
  have counted: "audit_locations w device (head_key # rest) s
              = audit_locations w device rest
                  (incr ''failures''
                     (snd (audit_object w device head_key (incr ''found_objects'' s))))"
    if "content_length \<noteq> int (length ?content) \<or>
        metadata ''ETag'' \<noteq> Some (w_md5_hexdigest w ?content)"
  proof -
    have "fst (audit_object w device head_key (incr ''found_objects'' s)) = Normal False"
      using that size [of "incr ''found_objects'' s"] etag [of "incr ''found_objects'' s"]
      by auto
    then show ?thesis
      using audit_locations_step [of w device head_key s False rest] by simp
  qed
  show ?thesis
    using size [of s] etag [of s] counted assms
    by (simp add: audit_object_size_md5)
qed


lemma py_int_11: "py_int (hello_metadata ''Content-Length'') = Inr 11"
  by (simp add: hello_metadata_def py_int_def strip_def is_space_def parse_digits_def is_digit_def)

lemma example_quarantine_contained: "quarantine_contained example_world d k"
  by (simp add: quarantine_contained_def example_world_def)

lemma init_trace: "trace (init c) = []"
  by (simp add: init_def reset_stats_def)

theorem verify_mismatch_quarantines_witness:
  "w_open example_world (trace (init example_conf)) ''127.0.0.1:8123'' ''objects/short''
     = Opened hello_truncated \<and>
   ob_metadata hello_truncated = Inr hello_metadata \<and>
   ob_stream_end hello_truncated = None \<and>
   py_int (hello_metadata ''Content-Length'') = Inr 11 \<and>
   quarantine_contained example_world ''127.0.0.1:8123'' ''objects/short'' \<and>
   (11 :: int) \<noteq> int (length (concat (ob_chunks hello_truncated))) \<and>
   fst (audit_object example_world ''127.0.0.1:8123'' ''objects/short'' (init example_conf))
     = Normal False \<and>
   quarantine_calls
     (trace (snd (audit_object example_world ''127.0.0.1:8123'' ''objects/short''
                    (init example_conf))))
     = [(''127.0.0.1:8123'', ''objects/short'')] \<and>
   mismatch_logs
     (trace (snd (audit_object example_world ''127.0.0.1:8123'' ''objects/short''
                    (init example_conf))))
     = [LogSizeMismatch ''objects/short'' 10 (Some ''11'')] \<and>
   w_open example_world (trace (init example_conf)) ''127.0.0.1:8123'' ''objects/bad''
     = Opened hello_altered \<and>
   ob_metadata hello_altered = Inr hello_metadata \<and>
   ob_stream_end hello_altered = None \<and>
   quarantine_contained example_world ''127.0.0.1:8123'' ''objects/bad'' \<and>
   (11 :: int) = int (length (concat (ob_chunks hello_altered))) \<and>
   hello_metadata ''ETag''
     \<noteq> Some (w_md5_hexdigest example_world (concat (ob_chunks hello_altered))) \<and>
   fst (audit_object example_world ''127.0.0.1:8123'' ''objects/bad'' (init example_conf))
     = Normal False \<and>
   quarantine_calls
     (trace (snd (audit_object example_world ''127.0.0.1:8123'' ''objects/bad''
                    (init example_conf))))
     = [(''127.0.0.1:8123'', ''objects/bad'')] \<and>
   mismatch_logs
     (trace (snd (audit_object example_world ''127.0.0.1:8123'' ''objects/bad''
                    (init example_conf))))
     = [LogEtagMismatch ''objects/bad'' ''e036b5bcaf8491c21b043d71e6e3a9bb''
          (Some ''5eb63bbbe01eeed093cb22bb8f5acdc3'')]"
proof -
  have o1: "w_open example_world (trace (init example_conf)) ''127.0.0.1:8123'' ''objects/short''
              = Opened hello_truncated"
    by (simp add: example_world_def example_open_def)
  have m1: "ob_metadata hello_truncated = Inr hello_metadata"
    and e1: "ob_stream_end hello_truncated = None"
    and c1: "concat (ob_chunks hello_truncated) = ''hello worl''"
    by (simp_all add: hello_truncated_def)
  have o2: "w_open example_world (trace (init example_conf)) ''127.0.0.1:8123'' ''objects/bad''
              = Opened hello_altered"
    by (simp add: example_world_def example_open_def)
  have m2: "ob_metadata hello_altered = Inr hello_metadata"
    and e2: "ob_stream_end hello_altered = None"
    and c2: "concat (ob_chunks hello_altered) = ''hello w0rld''"
    by (simp_all add: hello_altered_def)
  have md5: "w_md5_hexdigest example_world ''hello w0rld'' = ''e036b5bcaf8491c21b043d71e6e3a9bb''"
    by (simp add: example_world_def example_md5_def)
  have etag: "hello_metadata ''ETag'' = Some ''5eb63bbbe01eeed093cb22bb8f5acdc3''"
    and cl: "hello_metadata ''Content-Length'' = Some ''11''"
    by (simp_all add: hello_metadata_def)
  show ?thesis
    using verify_mismatch_quarantines [OF o1 m1 e1 py_int_11 example_quarantine_contained]
      verify_mismatch_quarantines [OF o2 m2 e2 py_int_11 example_quarantine_contained]
      o1 m1 e1 o2 m2 e2 py_int_11 example_quarantine_contained
    by (simp add: c1 c2 md5 etag cl init_trace)
qed

subsection \<open>A missing object\<close>

text \<open>
  Claim C3. An object whose \<open>open\<close> raises \<open>DiskFileNotExist\<close>: the audit returns True after
  the debug message, with no call to \<open>quarantine\<close> and no chunk read, and the device loop
  counts the object in \<open>found_objects\<close> and \<open>success\<close> and leaves \<open>failures\<close> as it was.
\<close>

theorem verify_missing_object_skipped:
  assumes "w_open w (trace s) device head_key = OpenRaises DiskFileNotExist"
  shows "audit_object w device head_key s
           = (Normal True, emit (EvLog (LogNotExist head_key)) (emit (EvOpen device head_key) s)) \<and>
         quarantine_calls (trace (snd (audit_object w device head_key s)))
           = quarantine_calls (trace s) \<and>
         chunk_reads (trace (snd (audit_object w device head_key s))) = chunk_reads (trace s) \<and>
         bytes_processed (snd (audit_object w device head_key s)) = bytes_processed s \<and>
         (\<exists>s1. audit_locations w device (head_key # rest) s = audit_locations w device rest s1 \<and>
               stats s1 ''found_objects'' = stats s ''found_objects'' + 1 \<and>
               stats s1 ''success'' = stats s ''success'' + 1 \<and>
               stats s1 ''failures'' = stats s ''failures'')"
proof -
  have a: "audit_object w device head_key t
           = (Normal True, emit (EvLog (LogNotExist head_key)) (emit (EvOpen device head_key) t))"
    if "trace t = trace s" for t
    using assms that by (simp add: audit_object_def audit_object_priv_def Let_def)
  let ?s1 = "incr ''success'' (emit (EvLog (LogNotExist head_key))
               (emit (EvOpen device head_key) (incr ''found_objects'' s)))"
  have "audit_locations w device (head_key # rest) s = audit_locations w device rest ?s1"
    by (simp add: a)
  moreover have "stats ?s1 ''found_objects'' = stats s ''found_objects'' + 1"
    and "stats ?s1 ''success'' = stats s ''success'' + 1"
    and "stats ?s1 ''failures'' = stats s ''failures''"
    by simp_all
  ultimately show ?thesis
    using a [of s] by (auto simp: emit_def)
qed

theorem verify_missing_object_skipped_witness:
  "w_open example_world (trace (init example_conf)) ''127.0.0.1:8123'' ''objects/gone''
     = OpenRaises DiskFileNotExist \<and>
   audit_object example_world ''127.0.0.1:8123'' ''objects/gone'' (init example_conf)
     = (Normal True,
        emit (EvLog (LogNotExist ''objects/gone''))
          (emit (EvOpen ''127.0.0.1:8123'' ''objects/gone'') (init example_conf))) \<and>
   quarantine_calls
     (trace (snd (audit_object example_world ''127.0.0.1:8123'' ''objects/gone''
                    (init example_conf)))) = [] \<and>
   chunk_reads
     (trace (snd (audit_object example_world ''127.0.0.1:8123'' ''objects/gone''
                    (init example_conf)))) = []"
proof -
  have o: "w_open example_world (trace (init example_conf)) ''127.0.0.1:8123'' ''objects/gone''
             = OpenRaises DiskFileNotExist"
    by (simp add: example_world_def example_open_def)
  show ?thesis
    using verify_missing_object_skipped [OF o] o by (simp add: init_trace)
qed

subsection \<open>The statistics\<close>

lemma quarantine_stats: "quarantine w d k s = (r, s') \<Longrightarrow> stats s' = stats s"
  by (auto simp: quarantine_def Let_def split: option.splits)

lemma compare_metadata_stats:
  "compare_metadata w d k md etag n s = (r, s') \<Longrightarrow> stats s' = stats s"
  by (auto simp: compare_metadata_def Let_def split: sum.splits if_splits
           dest!: quarantine_stats)

lemma audit_opened_stats: "audit_opened w d k f s = (r, s') \<Longrightarrow> stats s' = stats s"
proof -
  assume a: "audit_opened w d k f s = (r, s')"
  obtain e n s1 where rc: "read_chunks w d k (ob_chunks f) [] 0 s = ((e, n), s1)"
    by (metis prod.collapse)
  then have "stats s1 = stats s"
    using read_chunks_stats [of w d k "ob_chunks f" "[]" 0 s] by simp
  with a rc show ?thesis
    by (auto simp: audit_opened_def split: sum.splits option.splits
             dest!: compare_metadata_stats)
qed

lemma audit_object_priv_stats: "audit_object_priv w d k s = (r, s') \<Longrightarrow> stats s' = stats s"
  by (auto simp: audit_object_priv_def Let_def split: open_result.splits if_splits
           dest!: audit_opened_stats)

lemma audit_object_stats: "audit_object w d k s = (r, s') \<Longrightarrow> stats s' = stats s"
  by (auto simp: audit_object_def split: prod.splits result.splits if_splits
           dest!: audit_object_priv_stats)

lemma audit_object_raised: "audit_object w d k s = (Raised e, s') \<Longrightarrow> \<not> is_Exception e"
  by (auto simp: audit_object_def split: prod.splits result.splits if_splits)

lemma audit_locations_append:
  "audit_locations w d (ks1 @ ks2) s =
     (case audit_locations w d ks1 s of
        (Normal u, s1) \<Rightarrow> audit_locations w d ks2 s1
      | (Raised e, s1) \<Rightarrow> (Raised e, s1))"
  by (induction ks1 arbitrary: s) (auto split: prod.splits result.splits)

lemma audit_locations_raised:
  "audit_locations w d ks s = (Raised e, s') \<Longrightarrow> \<not> is_Exception e"
proof (induction ks arbitrary: s)
  case Nil
  then show ?case by simp
next
  case (Cons k ks)
  obtain r1 s1 where a: "audit_object w d k (incr ''found_objects'' s) = (r1, s1)"
    by (cases "audit_object w d k (incr ''found_objects'' s)")
  show ?case
  proof (cases r1)
    case (Normal b)
    with a Cons.prems show ?thesis
      using Cons.IH by simp
  next
    case (Raised e1)
    with a Cons.prems show ?thesis
      using audit_object_raised [of w d k "incr ''found_objects'' s" e1 s1] by simp
  qed
qed

lemma audit_locations_one:
  assumes "audit_locations w d [k] s = (Normal u, s')"
  shows "stats s' = (stats s)(''found_objects'' := stats s ''found_objects'' + 1,
                             ''success'' := stats s ''success'' + 1) \<or>
         stats s' = (stats s)(''found_objects'' := stats s ''found_objects'' + 1,
                             ''failures'' := stats s ''failures'' + 1)"
proof -
  obtain r1 s1 where a: "audit_object w d k (incr ''found_objects'' s) = (r1, s1)"
    by (cases "audit_object w d k (incr ''found_objects'' s)")
  then have st: "stats s1 = stats (incr ''found_objects'' s)"
    by (rule audit_object_stats)
  from a assms obtain b where "r1 = Normal b"
    by (cases r1) simp_all
  show ?thesis
  proof (cases b)
    case True
    with a assms st \<open>r1 = Normal b\<close> have "s' = incr ''success'' s1"
      by simp
    with st have "stats s' = (stats s)(''found_objects'' := stats s ''found_objects'' + 1,
                             ''success'' := stats s ''success'' + 1)"
      by simp
    then show ?thesis ..
  next
    case False
    with a assms st \<open>r1 = Normal b\<close> have "s' = incr ''failures'' s1"
      by simp
    with st have "stats s' = (stats s)(''found_objects'' := stats s ''found_objects'' + 1,
                             ''failures'' := stats s ''failures'' + 1)"
      by simp
    then show ?thesis ..
  qed
qed

lemma audit_locations_counted:
  "counted s \<Longrightarrow> audit_locations w d ks s = (Normal u, s') \<Longrightarrow>
   counted s' \<and> stats s' ''found_objects'' = stats s ''found_objects'' + int (length ks)"
proof (induction ks arbitrary: s)
  case Nil
  then show ?case by simp
next
  case (Cons k ks)
  obtain r1 s1 where a: "audit_object w d k (incr ''found_objects'' s) = (r1, s1)"
    by (cases "audit_object w d k (incr ''found_objects'' s)")
  then have st: "stats s1 = stats (incr ''found_objects'' s)"
    by (rule audit_object_stats)
  from a Cons.prems(2) obtain b where r1: "r1 = Normal b"
    by (cases r1) simp_all
  let ?s2 = "if b then incr ''success'' s1 else incr ''failures'' s1"
  have c2: "counted ?s2" and f2: "stats ?s2 ''found_objects'' = stats s ''found_objects'' + 1"
    using Cons.prems(1) st by (simp_all add: counted_def)
  have "audit_locations w d ks ?s2 = (Normal u, s')"
    using a r1 Cons.prems(2) by simp
  from Cons.IH [OF c2 this] f2 show ?case by simp
qed

lemma audit_locations_stats_other:
  "audit_locations w d ks s = (r, s') \<Longrightarrow>
   k \<noteq> ''found_objects'' \<Longrightarrow> k \<noteq> ''success'' \<Longrightarrow> k \<noteq> ''failures'' \<Longrightarrow>
   stats s' k = stats s k"
proof (induction ks arbitrary: s)
  case Nil
  then show ?case by simp
next
  case (Cons k1 ks)
  obtain r1 s1 where a: "audit_object w d k1 (incr ''found_objects'' s) = (r1, s1)"
    by (cases "audit_object w d k1 (incr ''found_objects'' s)")
  then have st: "stats s1 = stats (incr ''found_objects'' s)"
    by (rule audit_object_stats)
  show ?case
  proof (cases r1)
    case (Normal b)
    let ?s2 = "if b then incr ''success'' s1 else incr ''failures'' s1"
    have "audit_locations w d ks ?s2 = (r, s')"
      using a Normal Cons.prems(1) by simp
    from Cons.IH [OF this Cons.prems(2-4)] st Cons.prems(2-4) show ?thesis
      by simp
  next
    case (Raised e)
    with a Cons.prems st show ?thesis by simp
  qed
qed

lemma find_objects_priv_stats: "find_objects_priv w d s = (r, s') \<Longrightarrow> stats s' = stats s"
  by (auto simp: find_objects_priv_def Let_def split: option.splits)

lemma audit_device_priv_counted:
  assumes "counted s" and "audit_device_priv w d s = (r, s')" and "contained r"
  shows "counted s'"
proof -
  obtain ks ending s0 where f: "find_objects_priv w d s = ((ks, ending), s0)"
    by (metis prod.collapse)
  then have c0: "counted s0"
    using assms(1) find_objects_priv_stats [OF f] by (simp add: counted_def)
  obtain r1 s1 where l: "audit_locations w d ks s0 = (r1, s1)"
    by (cases "audit_locations w d ks s0")
  show ?thesis
  proof (cases r1)
    case (Normal u)
    with l c0 have "counted s1"
      using audit_locations_counted by blast
    moreover have "s' = s1"
      using assms(2) f l Normal by (simp add: audit_device_priv_def split: option.splits)
    ultimately show ?thesis by simp
  next
    case (Raised e)
    with l have "\<not> is_Exception e"
      using audit_locations_raised by blast
    moreover have "r = Raised e"
      using assms(2) f l Raised by (simp add: audit_device_priv_def)
    ultimately show ?thesis
      using assms(3) by simp
  qed
qed

lemma counted_incr_device:
  "counted s \<Longrightarrow> counted (incr ''device.success'' s)"
  "counted s \<Longrightarrow> counted (incr ''device.failures'' s)"
  by (simp_all add: counted_def)

lemma counted_emit: "counted (emit e s) = counted s"
  by (simp add: counted_def)

lemma audit_device_counted:
  assumes "counted s" and "audit_device w d s = (Normal u, s')"
  shows "counted s'"
proof -
  obtain r1 s1 where p: "audit_device_priv w d s = (r1, s1)"
    by (cases "audit_device_priv w d s")
  show ?thesis
  proof (cases "contained r1")
    case True
    then have "counted s1"
      using audit_device_priv_counted [OF assms(1) p] by simp
    with assms(2) p show ?thesis
      by (auto simp: audit_device_def counted_incr_device counted_emit
               split: result.splits if_splits)
  next
    case False
    with assms(2) p show ?thesis
      by (cases r1) (auto simp: audit_device_def split: if_splits)
  qed
qed

lemma audit_devices_counted:
  "counted s \<Longrightarrow> audit_devices w ds s = (Normal u, s') \<Longrightarrow> counted s'"
proof (induction ds arbitrary: s)
  case Nil
  then show ?case by simp
next
  case (Cons d ds)
  obtain r1 s1 where a: "audit_device w d s = (r1, s1)"
    by (cases "audit_device w d s")
  with Cons.prems(2) obtain u1 where r1: "r1 = Normal u1"
    by (cases r1) simp_all
  have "counted s1"
    using audit_device_counted [OF Cons.prems(1)] a r1 by blast
  moreover have "audit_devices w ds s1 = (Normal u, s')"
    using a r1 Cons.prems(2) by simp
  ultimately show ?case
    using Cons.IH by blast
qed

lemma sweep_counted:
  "counted s \<Longrightarrow> sweep w ds s = (Normal u, s') \<Longrightarrow> counted s'"
  by (auto simp: sweep_def read_time_def Let_def counted_emit
           split: prod.splits result.splits
           dest: audit_devices_counted [rotated])

lemma get_devices_priv_stats: "get_devices_priv w s = (r, s') \<Longrightarrow> stats s' = stats s"
  by (auto simp: get_devices_priv_def Let_def split: sum.splits)

lemma counted_reset: "counted (reset_stats s)"
  by (simp add: counted_def reset_stats_def)

lemma run_once_counted:
  assumes "run_once w ov s = (Normal u, s')"
  shows "counted s'"
proof (cases "ov = []")
  case False
  with assms have "sweep w ov (reset_stats s) = (Normal u, s')"
    by (simp add: run_once_def)
  then show ?thesis
    by (rule sweep_counted [OF counted_reset])
next
  case True
  obtain r1 s1 where g: "get_devices_priv w (reset_stats s) = (r1, s1)"
    by (cases "get_devices_priv w (reset_stats s)")
  then have c1: "counted s1"
    using get_devices_priv_stats [OF g] counted_reset [of s] by (simp add: counted_def)
  from assms True g obtain devices where "r1 = Normal devices"
    by (cases r1) (simp_all add: run_once_def)
  with assms True g have "sweep w (w_set_iter w devices) s1 = (Normal u, s')"
    by (simp add: run_once_def)
  then show ?thesis
    by (rule sweep_counted [OF c1])
qed

text \<open>
  Claim C10. While the loop of \<open>_audit_device\<close> runs to its end, \<open>found_objects\<close> is the sum
  of \<open>success\<close> and \<open>failures\<close> after every key: the equation, if it held before the
  loop, holds after every prefix of the keys and at the end, where \<open>found_objects\<close> has
  grown by the number of keys; one key adds one to \<open>found_objects\<close> and one to exactly one
  of \<open>success\<close> and \<open>failures\<close>; and the equation holds at the end of every sweep that
  \<open>run_once\<close> completes.
\<close>

theorem found_objects_is_success_plus_failures:
  "(counted s \<and> audit_locations w device (ks1 @ ks2) s = (Normal (), s') \<longrightarrow>
      (\<exists>s1. audit_locations w device ks1 s = (Normal (), s1) \<and>
            audit_locations w device ks2 s1 = (Normal (), s') \<and>
            counted s1 \<and>
            stats s1 ''found_objects'' = stats s ''found_objects'' + int (length ks1)) \<and>
      counted s' \<and>
      stats s' ''found_objects'' = stats s ''found_objects'' + int (length (ks1 @ ks2))) \<and>
   (audit_locations w device [k] s = (Normal (), s') \<longrightarrow>
      stats s' = (stats s)(''found_objects'' := stats s ''found_objects'' + 1,
                          ''success'' := stats s ''success'' + 1) \<or>
      stats s' = (stats s)(''found_objects'' := stats s ''found_objects'' + 1,
                          ''failures'' := stats s ''failures'' + 1)) \<and>
   (run_once w override_devices s = (Normal (), s') \<longrightarrow> counted s')"
proof (intro conjI impI)
  assume a: "counted s \<and> audit_locations w device (ks1 @ ks2) s = (Normal (), s')"
  then show "counted s'"
    and "stats s' ''found_objects'' = stats s ''found_objects'' + int (length (ks1 @ ks2))"
    using audit_locations_counted [of s w device "ks1 @ ks2" "()" s'] by simp_all
  obtain r1 s1 where l: "audit_locations w device ks1 s = (r1, s1)"
    by (cases "audit_locations w device ks1 s")
  with a have r1: "r1 = Normal ()"
    by (cases r1) (simp_all add: audit_locations_append)
  with a l have "audit_locations w device ks2 s1 = (Normal (), s')"
    by (simp add: audit_locations_append)
  moreover have "counted s1 \<and>
      stats s1 ''found_objects'' = stats s ''found_objects'' + int (length ks1)"
    using audit_locations_counted [of s w device ks1 "()" s1] a l r1 by simp
  ultimately show "\<exists>s1. audit_locations w device ks1 s = (Normal (), s1) \<and>
            audit_locations w device ks2 s1 = (Normal (), s') \<and>
            counted s1 \<and>
            stats s1 ''found_objects'' = stats s ''found_objects'' + int (length ks1)"
    using l r1 by blast
next
  assume "audit_locations w device [k] s = (Normal (), s')"
  then show "stats s' = (stats s)(''found_objects'' := stats s ''found_objects'' + 1,
                          ''success'' := stats s ''success'' + 1) \<or>
      stats s' = (stats s)(''found_objects'' := stats s ''found_objects'' + 1,
                          ''failures'' := stats s ''failures'' + 1)"
    by (rule audit_locations_one)
next
  assume "run_once w override_devices s = (Normal (), s')"
  then show "counted s'"
    by (rule run_once_counted)
qed


lemmas example_defs = example_world_def example_open_def example_md5_def hello_metadata_def
  hello_intact_def hello_truncated_def hello_altered_def example_conf_def example_rings_def
  empty_world_def healthy_world_def healthy_open_def

lemmas model_defs = init_def reset_stats_def emit_def incr_def read_time_def
  get_devices_priv_def find_objects_priv_def quarantine_def compare_metadata_def
  audit_opened_def audit_object_priv_def audit_object_def audit_device_priv_def
  audit_device_def sweep_def run_once_def run_forever_iteration_def run_forever_def
  py_int_def strip_def is_space_def parse_digits_def is_digit_def Let_def

theorem found_objects_is_success_plus_failures_witness:
  "counted (init example_conf) \<and>
   fst (audit_locations example_world ''127.0.0.1:8123''
          ([''objects/abc'', ''objects/gone''] @ [''objects/short'', ''objects/bad''])
          (init example_conf)) = Normal () \<and>
   counted (snd (audit_locations example_world ''127.0.0.1:8123''
          ([''objects/abc'', ''objects/gone''] @ [''objects/short'', ''objects/bad''])
          (init example_conf))) \<and>
   stats (snd (audit_locations example_world ''127.0.0.1:8123''
          ([''objects/abc'', ''objects/gone''] @ [''objects/short'', ''objects/bad''])
          (init example_conf))) ''found_objects'' = 4 \<and>
   stats (snd (audit_locations example_world ''127.0.0.1:8123''
          ([''objects/abc'', ''objects/gone''] @ [''objects/short'', ''objects/bad''])
          (init example_conf))) ''success'' = 2 \<and>
   stats (snd (audit_locations example_world ''127.0.0.1:8123''
          ([''objects/abc'', ''objects/gone''] @ [''objects/short'', ''objects/bad''])
          (init example_conf))) ''failures'' = 2"
proof -
  let ?r = "audit_locations example_world ''127.0.0.1:8123''
          ([''objects/abc'', ''objects/gone''] @ [''objects/short'', ''objects/bad''])
          (init example_conf)"
  have c: "counted (init example_conf)"
    by (simp add: counted_def init_def reset_stats_def)
  have z: "stats (init example_conf) ''found_objects'' = 0"
    by (simp add: init_def reset_stats_def)
  have f: "fst ?r = Normal ()"
    by (simp add: example_defs model_defs)
  then have h: "?r = (Normal (), snd ?r)"
    by (metis prod.collapse)
  have sf: "stats (snd ?r) ''success'' = 2" "stats (snd ?r) ''failures'' = 2"
    by (simp_all add: example_defs model_defs)
  show ?thesis
    using found_objects_is_success_plus_failures
      [where s = "init example_conf" and w = example_world and device = "''127.0.0.1:8123''"
         and ?ks1.0 = "[''objects/abc'', ''objects/gone'']"
         and ?ks2.0 = "[''objects/short'', ''objects/bad'']" and s' = "snd ?r"]
      c h f z sf
    by simp
qed

subsection \<open>One device\<close>

lemma audit_device_unavailable:
  assumes "w_get_connection w (trace s) d = Some DiskFileDeviceUnavailable"
  shows "audit_device w d s =
           (Normal (),
            incr ''device.failures'' (emit (EvLog (LogUnableToConnect d)) (emit (EvConnect d) s)))"
  using assms
  by (simp add: audit_device_def audit_device_priv_def find_objects_priv_def Let_def)

lemma audit_devices_step:
  "fst (audit_device w d s) = Normal () \<Longrightarrow>
   audit_devices w (d # ds) s = audit_devices w ds (snd (audit_device w d s))"
  by (cases "audit_device w d s") simp

lemma audit_device_priv_stats_other:
  assumes "audit_device_priv w d s = (r, s')"
    and "k \<noteq> ''found_objects''" and "k \<noteq> ''success''" and "k \<noteq> ''failures''"
  shows "stats s' k = stats s k"
proof -
  obtain ks ending s0 where f: "find_objects_priv w d s = ((ks, ending), s0)"
    by (metis prod.collapse)
  obtain r1 s1 where l: "audit_locations w d ks s0 = (r1, s1)"
    by (cases "audit_locations w d ks s0")
  have "s' = s1"
    using assms(1) f l
    by (cases r1) (simp_all add: audit_device_priv_def split: option.splits)
  then show ?thesis
    using audit_locations_stats_other [OF l assms(2-4)] find_objects_priv_stats [OF f]
    by simp
qed

lemma audit_device_completed:
  assumes "fst (audit_device_priv w d s) = Normal ()"
  shows "fst (audit_device w d s) = Normal ()"
    and "stats (snd (audit_device w d s)) ''device.success'' = stats s ''device.success'' + 1"
    and "stats (snd (audit_device w d s)) ''device.failures'' = stats s ''device.failures''"
proof -
  obtain s1 where p: "audit_device_priv w d s = (Normal (), s1)"
    using assms by (metis prod.collapse)
  then have a: "audit_device w d s = (Normal (), incr ''device.success'' s1)"
    by (simp add: audit_device_def)
  have "stats s1 ''device.success'' = stats s ''device.success''"
    and "stats s1 ''device.failures'' = stats s ''device.failures''"
    using audit_device_priv_stats_other [OF p] by simp_all
  with a show "fst (audit_device w d s) = Normal ()"
    and "stats (snd (audit_device w d s)) ''device.success'' = stats s ''device.success'' + 1"
    and "stats (snd (audit_device w d s)) ''device.failures'' = stats s ''device.failures''"
    by simp_all
qed

lemma audit_device_contained:
  assumes "contained (fst (audit_device_priv w d s))"
  shows "fst (audit_device w d s) = Normal ()"
proof -
  obtain r1 s1 where p: "audit_device_priv w d s = (r1, s1)"
    by (cases "audit_device_priv w d s")
  with assms show ?thesis
    by (cases r1) (simp_all add: audit_device_def)
qed

subsection \<open>Failures of objects stay with the object\<close>

lemma py_int_raises: "py_int v = Inl e \<Longrightarrow> is_Exception e"
  by (auto simp: py_int_def split: option.splits list.splits if_splits)

lemma quarantine_raises:
  "quarantine_contained w d k \<Longrightarrow> quarantine w d k s = (Raised e, s') \<Longrightarrow> is_Exception e"
  by (auto simp: quarantine_def quarantine_contained_def Let_def split: option.splits
           dest: spec [of _ "trace s"])

lemma compare_metadata_raises:
  "quarantine_contained w d k \<Longrightarrow> compare_metadata w d k md etag n s = (Raised e, s') \<Longrightarrow>
   is_Exception e"
  by (auto simp: compare_metadata_def Let_def split: sum.splits if_splits
           dest: py_int_raises quarantine_raises)

lemma audit_opened_raises:
  assumes "open_contained (Opened f)" and "quarantine_contained w d k"
    and "audit_opened w d k f s = (Raised e, s')"
  shows "is_Exception e"
proof -
  obtain etag n s1 where rc: "read_chunks w d k (ob_chunks f) [] 0 s = ((etag, n), s1)"
    by (metis prod.collapse)
  show ?thesis
  proof (cases "ob_metadata f")
    case (Inl e1)
    with assms(1,3) show ?thesis
      by (simp add: audit_opened_def open_contained_def)
  next
    case (Inr md)
    show ?thesis
    proof (cases "ob_stream_end f")
      case None
      with Inr rc assms(3) have "compare_metadata w d k md etag n s1 = (Raised e, s')"
        by (simp add: audit_opened_def)
      with assms(2) show ?thesis
        by (rule compare_metadata_raises)
    next
      case (Some e1)
      with Inr rc assms(1,3) show ?thesis
        by (simp add: audit_opened_def open_contained_def)
    qed
  qed
qed

lemma audit_object_priv_raises:
  assumes "open_contained (w_open w (trace s) d k)" and "quarantine_contained w d k"
    and "audit_object_priv w d k s = (Raised e, s')"
  shows "is_Exception e"
proof (cases "w_open w (trace s) d k")
  case (GetDiskfileRaises e1)
  with assms(1,3) show ?thesis
    by (simp add: audit_object_priv_def Let_def open_contained_def)
next
  case (OpenRaises e1)
  with assms(1,3) show ?thesis
    by (simp add: audit_object_priv_def Let_def open_contained_def split: if_splits)
next
  case (Opened f)
  with assms(3) have "audit_opened w d k f (emit (EvOpen d k) s) = (Raised e, s')"
    by (simp add: audit_object_priv_def Let_def)
  with assms(1,2) Opened show ?thesis
    using audit_opened_raises by metis
qed

lemma audit_object_returns:
  assumes "open_contained (w_open w (trace s) d k)" and "quarantine_contained w d k"
  shows "\<exists>b. fst (audit_object w d k s) = Normal b"
proof -
  obtain r1 s1 where p: "audit_object_priv w d k s = (r1, s1)"
    by (cases "audit_object_priv w d k s")
  show ?thesis
  proof (cases r1)
    case (Normal b)
    with p show ?thesis by (simp add: audit_object_def)
  next
    case (Raised e)
    with p assms have "is_Exception e"
      using audit_object_priv_raises by metis
    with p Raised have "fst (audit_object w d k s) = Normal False"
      by (simp add: audit_object_def)
    then show ?thesis ..
  qed
qed

lemma audit_locations_returns:
  "objects_contained w d ks \<Longrightarrow> fst (audit_locations w d ks s) = Normal ()"
proof (induction ks arbitrary: s)
  case Nil
  show ?case by simp
next
  case (Cons k ks)
  from Cons.prems have o: "open_contained (w_open w (trace (incr ''found_objects'' s)) d k)"
    and q: "quarantine_contained w d k" and rest: "objects_contained w d ks"
    by (simp_all add: objects_contained_def)
  from audit_object_returns [OF o q]
  obtain b where "fst (audit_object w d k (incr ''found_objects'' s)) = Normal b" ..
  then have "audit_locations w d (k # ks) s =
     audit_locations w d ks
       (incr (if b then ''success'' else ''failures'')
          (snd (audit_object w d k (incr ''found_objects'' s))))"
    by (rule audit_locations_step)
  with Cons.IH [OF rest] show ?case by simp
qed

lemma audit_device_priv_enumerated:
  assumes "w_get_connection w (trace s) d = None"
    and "w_iterKeyRange w (trace s @ [EvConnect d]) d ''objects'' ''objects/'' = (ks, None)"
  shows "audit_device_priv w d s =
           audit_locations w d ks
             (emit (EvIterKeyRange d ''objects'' ''objects/'') (emit (EvConnect d) s))"
proof -
  let ?s0 = "emit (EvIterKeyRange d ''objects'' ''objects/'') (emit (EvConnect d) s)"
  have f: "find_objects_priv w d s = ((ks, None), ?s0)"
    using assms by (simp add: find_objects_priv_def Let_def)
  obtain r1 s1 where l: "audit_locations w d ks ?s0 = (r1, s1)"
    by (cases "audit_locations w d ks ?s0")
  show ?thesis
  proof (cases r1)
    case (Normal u)
    with f l show ?thesis by (simp add: audit_device_priv_def)
  next
    case (Raised e)
    with f l show ?thesis by (simp add: audit_device_priv_def)
  qed
qed

lemma audit_device_priv_fails_only_outside:
  assumes "w_get_connection w (trace s) d = None"
    and "w_iterKeyRange w (trace s @ [EvConnect d]) d ''objects'' ''objects/'' = (ks, None)"
  shows "fst (audit_device_priv w d s) = Normal () \<or>
         (\<exists>e. fst (audit_device_priv w d s) = Raised e \<and> \<not> is_Exception e)"
proof -
  let ?s0 = "emit (EvIterKeyRange d ''objects'' ''objects/'') (emit (EvConnect d) s)"
  obtain r1 s1 where l: "audit_locations w d ks ?s0 = (r1, s1)"
    by (cases "audit_locations w d ks ?s0")
  show ?thesis
  proof (cases r1)
    case (Normal u)
    with l show ?thesis
      by (simp add: audit_device_priv_enumerated [OF assms])
  next
    case (Raised e)
    with l have "\<not> is_Exception e"
      using audit_locations_raised by blast
    with l Raised show ?thesis
      by (simp add: audit_device_priv_enumerated [OF assms])
  qed
qed

lemma audit_device_outside:
  assumes "fst (audit_device_priv w d s) = Raised e" and "\<not> is_Exception e"
  shows "fst (audit_device w d s) = Raised e"
proof -
  obtain s1 where "audit_device_priv w d s = (Raised e, s1)"
    using assms(1) by (metis prod.collapse)
  with assms(2) show ?thesis
    by (auto simp: audit_device_def)
qed

lemma audit_locations_found:
  assumes "fst (audit_locations w d ks s) = Normal ()"
  shows "stats (snd (audit_locations w d ks s)) ''found_objects''
           = stats s ''found_objects'' + int (length ks) \<and>
         stats (snd (audit_locations w d ks s)) ''success''
           + stats (snd (audit_locations w d ks s)) ''failures''
           = stats s ''success'' + stats s ''failures'' + int (length ks)"
  using assms
proof (induction ks arbitrary: s)
  case Nil
  show ?case by simp
next
  case (Cons k ks)
  obtain r1 s1 where a: "audit_object w d k (incr ''found_objects'' s) = (r1, s1)"
    by (cases "audit_object w d k (incr ''found_objects'' s)")
  then have st: "stats s1 = stats (incr ''found_objects'' s)"
    by (rule audit_object_stats)
  from a Cons.prems obtain b where r1: "r1 = Normal b"
    by (cases r1) simp_all
  let ?s2 = "if b then incr ''success'' s1 else incr ''failures'' s1"
  have step: "audit_locations w d (k # ks) s = audit_locations w d ks ?s2"
    using a r1 by simp
  with Cons.prems have "fst (audit_locations w d ks ?s2) = Normal ()"
    by simp
  from Cons.IH [OF this] st show ?case
    by (cases b) (simp_all add: step del: audit_locations.simps)
qed


lemma audit_device_enumerated:
  assumes "w_get_connection w (trace s) d = None"
    and "w_iterKeyRange w (trace s @ [EvConnect d]) d ''objects'' ''objects/'' = (ks, None)"
    and "objects_contained w d ks"
  shows "fst (audit_device_priv w d s) = Normal ()"
    and "stats (snd (audit_device w d s)) ''found_objects''
           = stats s ''found_objects'' + int (length ks)"
    and "stats (snd (audit_device w d s)) ''success''
           + stats (snd (audit_device w d s)) ''failures''
           = stats s ''success'' + stats s ''failures'' + int (length ks)"
proof -
  let ?s0 = "emit (EvIterKeyRange d ''objects'' ''objects/'') (emit (EvConnect d) s)"
  have p: "audit_device_priv w d s = audit_locations w d ks ?s0"
    by (rule audit_device_priv_enumerated [OF assms(1,2)])
  have l: "fst (audit_locations w d ks ?s0) = Normal ()"
    by (rule audit_locations_returns [OF assms(3)])
  with p show "fst (audit_device_priv w d s) = Normal ()"
    by simp
  have a: "audit_device w d s
             = (Normal (), incr ''device.success'' (snd (audit_locations w d ks ?s0)))"
    using p l by (cases "audit_locations w d ks ?s0") (simp add: audit_device_def)
  from audit_locations_found [OF l] a
  show "stats (snd (audit_device w d s)) ''found_objects''
           = stats s ''found_objects'' + int (length ks)"
    and "stats (snd (audit_device w d s)) ''success''
           + stats (snd (audit_device w d s)) ''failures''
           = stats s ''success'' + stats s ''failures'' + int (length ks)"
    by simp_all
qed

text \<open>
  Claim C5. When connecting to a device raises \<open>DiskFileDeviceUnavailable\<close>, \<open>audit_device\<close>
  returns normally after the warning, \<open>device.failures\<close> has grown by one and no other
  statistic has changed, and the loop of the sweep goes on with the remaining devices. No
  exception of the \<open>Exception\<close> hierarchy escapes \<open>audit_device\<close>. A device whose
  enumeration runs to its end is counted in \<open>device.success\<close> and not in
  \<open>device.failures\<close>, whatever the audits of its objects returned: when the connection is
  made and the key range ends normally, either the device is counted so or an exception
  from outside the \<open>Exception\<close> hierarchy has left \<open>audit_device\<close>; and when nothing that
  the objects of the key range raise is outside that hierarchy, the device is counted so,
  every key is counted in \<open>found_objects\<close> and in one of \<open>success\<close> and \<open>failures\<close>, and the
  loop of the sweep goes on.
\<close>

theorem device_failure_is_contained:
  "(w_get_connection w (trace s) device = Some DiskFileDeviceUnavailable \<longrightarrow>
      audit_device w device s =
        (Normal (),
         incr ''device.failures''
           (emit (EvLog (LogUnableToConnect device)) (emit (EvConnect device) s))) \<and>
      stats (snd (audit_device w device s))
        = (stats s)(''device.failures'' := stats s ''device.failures'' + 1) \<and>
      audit_devices w (device # rest) s
        = audit_devices w rest (snd (audit_device w device s))) \<and>
   (contained (fst (audit_device_priv w device s)) \<longrightarrow>
      fst (audit_device w device s) = Normal () \<and>
      audit_devices w (device # rest) s
        = audit_devices w rest (snd (audit_device w device s))) \<and>
   (fst (audit_device_priv w device s) = Normal () \<longrightarrow>
      fst (audit_device w device s) = Normal () \<and>
      stats (snd (audit_device w device s)) ''device.success''
        = stats s ''device.success'' + 1 \<and>
      stats (snd (audit_device w device s)) ''device.failures''
        = stats s ''device.failures'') \<and>
   (w_get_connection w (trace s) device = None \<and>
    w_iterKeyRange w (trace s @ [EvConnect device]) device ''objects'' ''objects/''
      = (keys, None) \<longrightarrow>
      (fst (audit_device w device s) = Normal () \<and>
       stats (snd (audit_device w device s)) ''device.success''
         = stats s ''device.success'' + 1 \<and>
       stats (snd (audit_device w device s)) ''device.failures''
         = stats s ''device.failures'') \<or>
      (\<exists>e. \<not> is_Exception e \<and> fst (audit_device w device s) = Raised e)) \<and>
   (w_get_connection w (trace s) device = None \<and>
    w_iterKeyRange w (trace s @ [EvConnect device]) device ''objects'' ''objects/''
      = (keys, None) \<and>
    objects_contained w device keys \<longrightarrow>
      fst (audit_device w device s) = Normal () \<and>
      stats (snd (audit_device w device s)) ''device.success''
        = stats s ''device.success'' + 1 \<and>
      stats (snd (audit_device w device s)) ''device.failures''
        = stats s ''device.failures'' \<and>
      stats (snd (audit_device w device s)) ''found_objects''
        = stats s ''found_objects'' + int (length keys) \<and>
      stats (snd (audit_device w device s)) ''success''
        + stats (snd (audit_device w device s)) ''failures''
        = stats s ''success'' + stats s ''failures'' + int (length keys) \<and>
      audit_devices w (device # rest) s
        = audit_devices w rest (snd (audit_device w device s)))"
proof (intro conjI impI)
  assume a: "w_get_connection w (trace s) device = Some DiskFileDeviceUnavailable"
  show "audit_device w device s =
        (Normal (),
         incr ''device.failures''
           (emit (EvLog (LogUnableToConnect device)) (emit (EvConnect device) s)))"
    by (rule audit_device_unavailable [OF a])
  then show "stats (snd (audit_device w device s))
        = (stats s)(''device.failures'' := stats s ''device.failures'' + 1)"
    by simp
  show "audit_devices w (device # rest) s
        = audit_devices w rest (snd (audit_device w device s))"
    by (rule audit_devices_step) (simp add: audit_device_unavailable [OF a])
next
  assume a: "contained (fst (audit_device_priv w device s))"
  show "fst (audit_device w device s) = Normal ()"
    by (rule audit_device_contained [OF a])
  then show "audit_devices w (device # rest) s
        = audit_devices w rest (snd (audit_device w device s))"
    by (rule audit_devices_step)
next
  assume a: "fst (audit_device_priv w device s) = Normal ()"
  show "fst (audit_device w device s) = Normal ()"
    and "stats (snd (audit_device w device s)) ''device.success''
        = stats s ''device.success'' + 1"
    and "stats (snd (audit_device w device s)) ''device.failures''
        = stats s ''device.failures''"
    by (rule audit_device_completed [OF a])+
next
  assume a: "w_get_connection w (trace s) device = None \<and>
    w_iterKeyRange w (trace s @ [EvConnect device]) device ''objects'' ''objects/''
      = (keys, None)"
  then have "fst (audit_device_priv w device s) = Normal () \<or>
         (\<exists>e. fst (audit_device_priv w device s) = Raised e \<and> \<not> is_Exception e)"
    using audit_device_priv_fails_only_outside [of w s device keys] by simp
  then show "(fst (audit_device w device s) = Normal () \<and>
       stats (snd (audit_device w device s)) ''device.success''
         = stats s ''device.success'' + 1 \<and>
       stats (snd (audit_device w device s)) ''device.failures''
         = stats s ''device.failures'') \<or>
      (\<exists>e. \<not> is_Exception e \<and> fst (audit_device w device s) = Raised e)"
  proof
    assume "fst (audit_device_priv w device s) = Normal ()"
    from audit_device_completed [OF this] show ?thesis
      by simp
  next
    assume "\<exists>e. fst (audit_device_priv w device s) = Raised e \<and> \<not> is_Exception e"
    then obtain e where "fst (audit_device_priv w device s) = Raised e" and "\<not> is_Exception e"
      by blast
    then show ?thesis
      using audit_device_outside by blast
  qed
next
  assume a: "w_get_connection w (trace s) device = None \<and>
    w_iterKeyRange w (trace s @ [EvConnect device]) device ''objects'' ''objects/''
      = (keys, None) \<and>
    objects_contained w device keys"
  then have c: "w_get_connection w (trace s) device = None"
    and i: "w_iterKeyRange w (trace s @ [EvConnect device]) device ''objects'' ''objects/''
      = (keys, None)"
    and o: "objects_contained w device keys"
    by simp_all
  have p: "fst (audit_device_priv w device s) = Normal ()"
    by (rule audit_device_enumerated(1) [OF c i o])
  show "fst (audit_device w device s) = Normal ()"
    and "stats (snd (audit_device w device s)) ''device.success''
        = stats s ''device.success'' + 1"
    and "stats (snd (audit_device w device s)) ''device.failures''
        = stats s ''device.failures''"
    by (rule audit_device_completed [OF p])+
  show "stats (snd (audit_device w device s)) ''found_objects''
        = stats s ''found_objects'' + int (length keys)"
    by (rule audit_device_enumerated(2) [OF c i o])
  show "stats (snd (audit_device w device s)) ''success''
        + stats (snd (audit_device w device s)) ''failures''
        = stats s ''success'' + stats s ''failures'' + int (length keys)"
    by (rule audit_device_enumerated(3) [OF c i o])
  show "audit_devices w (device # rest) s
        = audit_devices w rest (snd (audit_device w device s))"
    by (rule audit_devices_step) (rule audit_device_completed(1) [OF p])
qed

lemmas raising_defs = raising_world_def raising_open_def raising_keys_def

lemma raising_objects_contained:
  "objects_contained raising_world ''127.0.0.1:8123'' raising_keys"
  by (simp add: objects_contained_def open_contained_def quarantine_contained_def
      raising_defs example_world_def hello_truncated_def)

theorem device_failure_is_contained_witness:
  "w_get_connection example_world (trace (init example_conf)) ''127.0.0.1:8124''
     = Some DiskFileDeviceUnavailable \<and>
   fst (audit_device example_world ''127.0.0.1:8124'' (init example_conf)) = Normal () \<and>
   stats (snd (audit_device example_world ''127.0.0.1:8124'' (init example_conf)))
     ''device.failures'' = 1 \<and>
   audit_devices example_world [''127.0.0.1:8124'', ''127.0.0.1:8123''] (init example_conf)
     = audit_devices example_world [''127.0.0.1:8123'']
         (snd (audit_device example_world ''127.0.0.1:8124'' (init example_conf))) \<and>
   contained (fst (audit_device_priv example_world ''127.0.0.1:8124'' (init example_conf))) \<and>
   fst (audit_device_priv example_world ''127.0.0.1:8123'' (init example_conf)) = Normal () \<and>
   stats (snd (audit_device_priv example_world ''127.0.0.1:8123'' (init example_conf)))
     ''failures'' = 2 \<and>
   fst (audit_device example_world ''127.0.0.1:8123'' (init example_conf)) = Normal () \<and>
   stats (snd (audit_device example_world ''127.0.0.1:8123'' (init example_conf)))
     ''device.success'' = 1 \<and>
   stats (snd (audit_device example_world ''127.0.0.1:8123'' (init example_conf)))
     ''device.failures'' = 0 \<and>
   w_get_connection raising_world (trace (init example_conf)) ''127.0.0.1:8123'' = None \<and>
   w_iterKeyRange raising_world (trace (init example_conf) @ [EvConnect ''127.0.0.1:8123''])
       ''127.0.0.1:8123'' ''objects'' ''objects/'' = (raising_keys, None) \<and>
   objects_contained raising_world ''127.0.0.1:8123'' raising_keys \<and>
   fst (audit_device raising_world ''127.0.0.1:8123'' (init example_conf)) = Normal () \<and>
   stats (snd (audit_device raising_world ''127.0.0.1:8123'' (init example_conf)))
     ''device.success'' = 1 \<and>
   stats (snd (audit_device raising_world ''127.0.0.1:8123'' (init example_conf)))
     ''device.failures'' = 0 \<and>
   stats (snd (audit_device raising_world ''127.0.0.1:8123'' (init example_conf)))
     ''found_objects'' = 5 \<and>
   stats (snd (audit_device raising_world ''127.0.0.1:8123'' (init example_conf)))
     ''success'' = 0 \<and>
   stats (snd (audit_device raising_world ''127.0.0.1:8123'' (init example_conf)))
     ''failures'' = 5 \<and>
   quarantine_calls
     (trace (snd (audit_device raising_world ''127.0.0.1:8123'' (init example_conf))))
     = [(''127.0.0.1:8123'', ''objects/e'')]"
proof -
  have c: "w_get_connection example_world (trace (init example_conf)) ''127.0.0.1:8124''
             = Some DiskFileDeviceUnavailable"
    by (simp add: example_world_def)
  have k: "contained (fst (audit_device_priv example_world ''127.0.0.1:8124''
                             (init example_conf)))"
    by (simp add: example_defs model_defs)
  have n: "fst (audit_device_priv example_world ''127.0.0.1:8123'' (init example_conf))
             = Normal ()"
    by (simp add: example_defs model_defs)
  have f: "stats (snd (audit_device_priv example_world ''127.0.0.1:8123'' (init example_conf)))
             ''failures'' = 2"
    by (simp add: example_defs model_defs)
  have z: "stats (init example_conf) = (\<lambda>k. 0)"
    by (simp add: init_def reset_stats_def)
  have rc: "w_get_connection raising_world (trace (init example_conf)) ''127.0.0.1:8123''
              = None"
    by (simp add: raising_world_def example_world_def)
  have ri: "w_iterKeyRange raising_world
              (trace (init example_conf) @ [EvConnect ''127.0.0.1:8123''])
              ''127.0.0.1:8123'' ''objects'' ''objects/'' = (raising_keys, None)"
    by (simp add: raising_world_def example_world_def)
  have rs: "stats (snd (audit_device raising_world ''127.0.0.1:8123'' (init example_conf)))
              ''success'' = 0"
    and rf: "stats (snd (audit_device raising_world ''127.0.0.1:8123'' (init example_conf)))
              ''failures'' = 5"
    and rq: "quarantine_calls
               (trace (snd (audit_device raising_world ''127.0.0.1:8123'' (init example_conf))))
               = [(''127.0.0.1:8123'', ''objects/e'')]"
    by (simp_all add: raising_defs example_defs model_defs)
  have len: "length raising_keys = 5"
    by (simp add: raising_keys_def)
  show ?thesis
    using device_failure_is_contained
        [of example_world "init example_conf" "''127.0.0.1:8124''" "[''127.0.0.1:8123'']"]
      device_failure_is_contained
        [of example_world "init example_conf" "''127.0.0.1:8123''" "[]"]
      device_failure_is_contained
        [of raising_world "init example_conf" "''127.0.0.1:8123''" "[]" raising_keys]
      c k n f rc ri raising_objects_contained rs rf rq
    by (simp add: z len)
qed

subsection \<open>The counters\<close>

lemma evolves_counters_le: "evolves s s' \<Longrightarrow> counters_le s s'"
  by (simp add: evolves_def)

lemma counters_zero_reset: "counters_zero (reset_stats s)"
  by (simp add: counters_zero_def reset_stats_def)

lemma reset_stats_counters:
  "reset_stats (s\<lparr>stats := st, bytes_processed := bp, total_bytes_processed := tbp,
                  total_files_processed := tfp\<rparr>) = reset_stats s"
  by (simp add: reset_stats_def)

text \<open>
  Claim C7. No counter of the statistics goes down while a sweep runs: not while an
  object is read and audited, nor over the keys of a device, nor over a device or the
  devices of the sweep. \<open>reset_stats\<close> sets every counter to zero, \<open>run_once\<close> starts from
  the reset statistics, so that what it ends with does not depend on the counters it was
  started with, and an iteration of \<open>run_forever\<close> that completes leaves them at zero.
\<close>

theorem counters_monotone_and_reset:
  "counters_zero (reset_stats s) \<and>
   counters_le s (snd (read_chunks w device location chunks etag sz s)) \<and>
   counters_le s (snd (audit_object w device location s)) \<and>
   counters_le s (snd (audit_locations w device keys s)) \<and>
   counters_le s (snd (audit_device w device s)) \<and>
   counters_le s (snd (audit_devices w devices s)) \<and>
   counters_le s (snd (sweep w devices s)) \<and>
   counters_le (reset_stats s) (snd (run_once w override_devices s)) \<and>
   run_once w override_devices
     (s\<lparr>stats := st, bytes_processed := bp, total_bytes_processed := tbp,
        total_files_processed := tfp\<rparr>) = run_once w override_devices s \<and>
   (fst (run_forever_iteration w override_devices s) = Normal () \<longrightarrow>
      counters_zero (snd (run_forever_iteration w override_devices s)))"
proof (intro conjI impI)
  show "counters_zero (reset_stats s)"
    by (rule counters_zero_reset)
  show "counters_le s (snd (read_chunks w device location chunks etag sz s))"
    by (rule evolves_counters_le) (metis evolves_refl read_chunks_evolves prod.collapse)
  show "counters_le s (snd (audit_object w device location s))"
    by (rule evolves_counters_le) (metis evolves_refl audit_object_evolves prod.collapse)
  show "counters_le s (snd (audit_locations w device keys s))"
    by (rule evolves_counters_le) (metis evolves_refl audit_locations_evolves prod.collapse)
  show "counters_le s (snd (audit_device w device s))"
    by (rule evolves_counters_le) (metis evolves_refl audit_device_evolves prod.collapse)
  show "counters_le s (snd (audit_devices w devices s))"
    by (rule evolves_counters_le) (metis evolves_refl audit_devices_evolves prod.collapse)
  show "counters_le s (snd (sweep w devices s))"
    by (rule evolves_counters_le) (metis evolves_refl sweep_evolves prod.collapse)
  show "counters_le (reset_stats s) (snd (run_once w override_devices s))"
    by (rule evolves_counters_le) (metis run_once_evolves prod.collapse)
  show "run_once w override_devices
     (s\<lparr>stats := st, bytes_processed := bp, total_bytes_processed := tbp,
        total_files_processed := tfp\<rparr>) = run_once w override_devices s"
    by (simp add: run_once_def reset_stats_counters)
next
  assume "fst (run_forever_iteration w override_devices s) = Normal ()"
  then show "counters_zero (snd (run_forever_iteration w override_devices s))"
    by (auto simp: run_forever_iteration_def read_time_def Let_def counters_zero_reset
             split: prod.splits result.splits)
qed

theorem counters_monotone_and_reset_witness:
  "fst (run_forever_iteration example_world [''127.0.0.1:8123''] (init example_conf))
     = Normal () \<and>
   counters_zero
     (snd (run_forever_iteration example_world [''127.0.0.1:8123''] (init example_conf)))"
proof -
  have "fst (run_forever_iteration example_world [''127.0.0.1:8123''] (init example_conf))
          = Normal ()"
    by (simp add: example_defs model_defs)
  then show ?thesis
    using counters_monotone_and_reset
      [of "init example_conf" example_world _ _ _ _ _ _ _ "[''127.0.0.1:8123'']"]
    by simp
qed

subsection \<open>The pace of the loop\<close>

lemma sleep_calls_append [simp]:
  "sleep_calls (xs @ ys) = sleep_calls xs @ sleep_calls ys"
  by (induction xs rule: sleep_calls.induct) simp_all

lemma run_once_interval: "run_once w ov s = (r, s') \<Longrightarrow> interval s' = interval s"
  using run_once_evolves [of w ov s r s'] by (simp add: evolves_def reset_stats_def)

lemma interval_init: "interval (init c) = 30"
  by (simp add: init_def reset_stats_def)

text \<open>
  Claim C6. An iteration of the loop of \<open>run_forever\<close> whose sweep completes: after the
  events of \<open>run_once\<close> it reads the clock, logs the elapsed time and publishes it under
  the key \<open>object_audit_sweep\<close>; then, when the elapsed time is less than the interval,
  it sleeps the interval minus the elapsed time, and otherwise does nothing more. The
  next iteration starts from the state this one ends in, with nothing in between. The
  interval is 30 after \<open>__init__\<close>.
\<close>

theorem interval_wait_after_sweep:
  assumes "run_once w override_devices (emit (EvLog LogBeginSweep) (emit EvTime s))
             = (Normal (), s1)"
  shows "fst (run_forever_iteration w override_devices s) = Normal () \<and>
         trace (snd (run_forever_iteration w override_devices s))
           = trace s1 @
             [EvTime,
              EvLog (LogSweepCompleted (w_fsub w (w_time w (trace s1)) (w_time w (trace s)))),
              EvRecon ''object_audit_sweep''
                (w_fsub w (w_time w (trace s1)) (w_time w (trace s)))] @
             (if w_fsub w (w_time w (trace s1)) (w_time w (trace s)) < interval s
              then [EvSleep (w_fsub w (interval s)
                               (w_fsub w (w_time w (trace s1)) (w_time w (trace s))))]
              else []) \<and>
         run_forever_loop (Suc fuel) w override_devices s
           = run_forever_loop fuel w override_devices
               (snd (run_forever_iteration w override_devices s)) \<and>
         interval (init c) = 30"
proof -
  have i: "interval s1 = interval s"
    using run_once_interval [OF assms] by (simp add: emit_def)
  have it: "fst (run_forever_iteration w override_devices s) = Normal ()"
    using assms by (simp add: run_forever_iteration_def read_time_def Let_def)
  then have "run_forever_loop (Suc fuel) w override_devices s
           = run_forever_loop fuel w override_devices
               (snd (run_forever_iteration w override_devices s))"
    by (cases "run_forever_iteration w override_devices s") simp
  moreover have "trace (snd (run_forever_iteration w override_devices s))
           = trace s1 @
             [EvTime,
              EvLog (LogSweepCompleted (w_fsub w (w_time w (trace s1)) (w_time w (trace s)))),
              EvRecon ''object_audit_sweep''
                (w_fsub w (w_time w (trace s1)) (w_time w (trace s)))] @
             (if w_fsub w (w_time w (trace s1)) (w_time w (trace s)) < interval s
              then [EvSleep (w_fsub w (interval s)
                               (w_fsub w (w_time w (trace s1)) (w_time w (trace s))))]
              else [])"
    using assms i
    by (simp add: run_forever_iteration_def read_time_def Let_def emit_def reset_stats_def)
  ultimately show ?thesis
    using it by (simp add: interval_init)
qed

theorem interval_wait_after_sweep_witness:
  "fst (run_once empty_world [''127.0.0.1:8123'']
          (emit (EvLog LogBeginSweep) (emit EvTime (init example_conf)))) = Normal () \<and>
   fst (run_forever_iteration empty_world [''127.0.0.1:8123''] (init example_conf))
     = Normal () \<and>
   sleep_calls (trace (snd (run_forever_iteration empty_world [''127.0.0.1:8123'']
                              (init example_conf)))) = [22] \<and>
   fst (run_once slow_world [''127.0.0.1:8123'']
          (emit (EvLog LogBeginSweep) (emit EvTime (init example_conf)))) = Normal () \<and>
   fst (run_forever_iteration slow_world [''127.0.0.1:8123''] (init example_conf))
     = Normal () \<and>
   sleep_calls (trace (snd (run_forever_iteration slow_world [''127.0.0.1:8123'']
                              (init example_conf)))) = []"
proof -
  let ?s = "emit (EvLog LogBeginSweep) (emit EvTime (init example_conf))"
  have f1: "fst (run_once empty_world [''127.0.0.1:8123''] ?s) = Normal ()"
    by (simp add: example_defs model_defs)
  then have r1: "run_once empty_world [''127.0.0.1:8123''] ?s
                   = (Normal (), snd (run_once empty_world [''127.0.0.1:8123''] ?s))"
    by (metis prod.collapse)
  have f2: "fst (run_once slow_world [''127.0.0.1:8123''] ?s) = Normal ()"
    by (simp add: slow_world_def example_defs model_defs)
  then have r2: "run_once slow_world [''127.0.0.1:8123''] ?s
                   = (Normal (), snd (run_once slow_world [''127.0.0.1:8123''] ?s))"
    by (metis prod.collapse)
  have t1: "trace (snd (run_once empty_world [''127.0.0.1:8123''] ?s))
              = [EvTime, EvLog LogBeginSweep, EvLog (LogStartingSweep [''127.0.0.1:8123'']),
                 EvTime, EvConnect ''127.0.0.1:8123'',
                 EvIterKeyRange ''127.0.0.1:8123'' ''objects'' ''objects/'', EvTime,
                 EvLog (LogFinishedSweep [''127.0.0.1:8123''] 3
                          ((\<lambda>k. 0)(''device.success'' := 1)))]"
    by (simp add: example_defs model_defs)
  have t2: "trace (snd (run_once slow_world [''127.0.0.1:8123''] ?s))
              = [EvTime, EvLog LogBeginSweep, EvLog (LogStartingSweep [''127.0.0.1:8123'']),
                 EvTime, EvConnect ''127.0.0.1:8123'',
                 EvIterKeyRange ''127.0.0.1:8123'' ''objects'' ''objects/'', EvTime,
                 EvLog (LogFinishedSweep [''127.0.0.1:8123''] 30
                          ((\<lambda>k. 0)(''device.success'' := 1)))]"
    by (simp add: slow_world_def example_defs model_defs)
  have w1: "w_time empty_world = (\<lambda>tr. real (length tr))" "w_fsub empty_world = (\<lambda>a b. a - b)"
    and w2: "w_time slow_world = (\<lambda>tr. 10 * real (length tr))" "w_fsub slow_world = (\<lambda>a b. a - b)"
    by (simp_all add: slow_world_def empty_world_def example_world_def)
  show ?thesis
    using interval_wait_after_sweep [OF r1] interval_wait_after_sweep [OF r2] f1 f2
    by (simp add: t1 t2 w1 w2 init_trace interval_init)
qed

subsection \<open>The devices of a sweep\<close>

lemma new_events_append:
  assumes "prefix (trace s) (trace s')"
  shows "trace s' = trace s @ new_events s s'"
proof -
  from assms obtain zs where "trace s' = trace s @ zs"
    by (rule prefixE)
  then show ?thesis
    by (simp add: new_events_def)
qed

lemma evolves_new_events: "evolves s s' \<Longrightarrow> trace s' = trace s @ new_events s s'"
  by (rule new_events_append) (simp add: evolves_def)

lemma quarantine_audited:
  "quarantine w d k s = (r, s') \<Longrightarrow> audited_devices (trace s') = audited_devices (trace s)"
  by (auto simp: quarantine_def Let_def split: option.splits)

lemma compare_metadata_audited:
  "compare_metadata w d k md etag n s = (r, s') \<Longrightarrow>
   audited_devices (trace s') = audited_devices (trace s)"
  by (auto simp: compare_metadata_def Let_def split: sum.splits if_splits
           dest!: quarantine_audited)

lemma audit_opened_audited:
  assumes "audit_opened w d k f s = (r, s')"
  shows "audited_devices (trace s') = audited_devices (trace s)"
proof -
  obtain e n s1 where rc: "read_chunks w d k (ob_chunks f) [] 0 s = ((e, n), s1)"
    by (metis prod.collapse)
  then have "audited_devices (trace s1) = audited_devices (trace s)"
    using read_chunks_audited_devices [of w d k "ob_chunks f" "[]" 0 s] by simp
  with assms rc show ?thesis
    by (auto simp: audit_opened_def split: sum.splits option.splits
             dest!: compare_metadata_audited)
qed

lemma audit_object_priv_audited:
  "audit_object_priv w d k s = (r, s') \<Longrightarrow>
   audited_devices (trace s') = audited_devices (trace s)"
  by (auto simp: audit_object_priv_def Let_def split: open_result.splits if_splits
           dest!: audit_opened_audited)

lemma audit_object_audited:
  "audit_object w d k s = (r, s') \<Longrightarrow> audited_devices (trace s') = audited_devices (trace s)"
  by (auto simp: audit_object_def split: prod.splits result.splits if_splits
           dest!: audit_object_priv_audited)

lemma audit_locations_audited:
  "audit_locations w d ks s = (r, s') \<Longrightarrow>
   audited_devices (trace s') = audited_devices (trace s)"
proof (induction ks arbitrary: s)
  case Nil
  then show ?case by simp
next
  case (Cons k ks)
  obtain r1 s1 where a: "audit_object w d k (incr ''found_objects'' s) = (r1, s1)"
    by (cases "audit_object w d k (incr ''found_objects'' s)")
  then have t1: "audited_devices (trace s1) = audited_devices (trace s)"
    using audit_object_audited [OF a] by simp
  show ?case
  proof (cases r1)
    case (Normal b)
    let ?s2 = "if b then incr ''success'' s1 else incr ''failures'' s1"
    have "audit_locations w d ks ?s2 = (r, s')"
      using a Normal Cons.prems by simp
    from Cons.IH [OF this] t1 show ?thesis by simp
  next
    case (Raised e)
    with a Cons.prems t1 show ?thesis by simp
  qed
qed

lemma find_objects_priv_audited:
  "find_objects_priv w d s = (r, s') \<Longrightarrow>
   audited_devices (trace s') = audited_devices (trace s) @ [d]"
  by (auto simp: find_objects_priv_def Let_def split: option.splits)

lemma audit_device_priv_audited:
  assumes "audit_device_priv w d s = (r, s')"
  shows "audited_devices (trace s') = audited_devices (trace s) @ [d]"
proof -
  obtain ks ending s0 where f: "find_objects_priv w d s = ((ks, ending), s0)"
    by (metis prod.collapse)
  obtain r1 s1 where l: "audit_locations w d ks s0 = (r1, s1)"
    by (cases "audit_locations w d ks s0")
  have "s' = s1"
    using assms f l by (cases r1) (simp_all add: audit_device_priv_def split: option.splits)
  then show ?thesis
    using audit_locations_audited [OF l] find_objects_priv_audited [OF f] by simp
qed

lemma audit_device_audited:
  "audit_device w d s = (r, s') \<Longrightarrow>
   audited_devices (trace s') = audited_devices (trace s) @ [d]"
  by (auto simp: audit_device_def split: prod.splits result.splits if_splits
           dest!: audit_device_priv_audited)

lemma audit_devices_audited:
  "audit_devices w ds s = (Normal u, s') \<Longrightarrow>
   audited_devices (trace s') = audited_devices (trace s) @ ds"
proof (induction ds arbitrary: s)
  case Nil
  then show ?case by simp
next
  case (Cons d ds)
  obtain r1 s1 where a: "audit_device w d s = (r1, s1)"
    by (cases "audit_device w d s")
  with Cons.prems obtain u1 where r1: "r1 = Normal u1"
    by (cases r1) simp_all
  have "audit_devices w ds s1 = (Normal u, s')"
    using a r1 Cons.prems by simp
  from Cons.IH [OF this] audit_device_audited [OF a] show ?case by simp
qed

lemma sweep_audited:
  "sweep w ds s = (Normal u, s') \<Longrightarrow>
   audited_devices (trace s') = audited_devices (trace s) @ ds"
  by (auto simp: sweep_def read_time_def Let_def split: prod.splits result.splits
           dest!: audit_devices_audited)

lemma ring_device_names_set:
  "ring_device_names devs = Inr names \<Longrightarrow>
   set names = {name. \<exists>dict. Some dict \<in> set devs \<and> dict \<noteq> [] \<and>
                             map_of dict ''device'' = Some name}"
proof (induction devs arbitrary: names)
  case Nil
  then show ?case by simp
next
  case (Cons d devs)
  show ?case
  proof (cases d)
    case None
    with Cons show ?thesis by auto
  next
    case (Some dict)
    show ?thesis
    proof (cases "dict = []")
      case True
      with Some Cons show ?thesis by auto
    next
      case False
      with Some Cons.prems obtain name rest where n: "map_of dict ''device'' = Some name"
        and r: "ring_device_names devs = Inr rest" and ns: "names = name # rest"
        by (auto split: option.splits sum.splits)
      from Cons.IH [OF r] Some False n ns show ?thesis
        by auto
    qed
  qed
qed

lemma policies_device_names_set:
  "policies_device_names rings = Inr names \<Longrightarrow> set names = ring_names rings"
proof (induction rings arbitrary: names)
  case Nil
  then show ?case by (simp add: ring_names_def)
next
  case (Cons ring rings)
  from Cons.prems obtain devs ns1 ns2 where d: "ring = Inr devs"
    and a: "ring_device_names devs = Inr ns1"
    and b: "policies_device_names rings = Inr ns2" and c: "names = ns1 @ ns2"
    by (auto split: sum.splits)
  have "ring_names (Inr devs # rings) =
          {name. \<exists>dict. Some dict \<in> set devs \<and> dict \<noteq> [] \<and>
                        map_of dict ''device'' = Some name} \<union> ring_names rings"
    by (auto simp: ring_names_def)
  with ring_device_names_set [OF a] Cons.IH [OF b] c d show ?case
    by simp
qed

lemma run_once_override_audited:
  assumes "override_devices \<noteq> []" and "fst (run_once w override_devices s) = Normal ()"
  shows "audited_devices (new_events s (snd (run_once w override_devices s))) = override_devices"
proof -
  let ?s' = "snd (run_once w override_devices s)"
  have r: "run_once w override_devices s = (Normal (), ?s')"
    using assms(2) by (metis prod.collapse)
  then have "sweep w override_devices (reset_stats s) = (Normal (), ?s')"
    using assms(1) by (simp add: run_once_def)
  then have "audited_devices (trace ?s') = audited_devices (trace s) @ override_devices"
    using sweep_audited by (fastforce simp: reset_stats_def)
  moreover have "trace ?s' = trace s @ new_events s ?s'"
    using evolves_new_events [OF run_once_evolves [OF r]]
    by (simp add: reset_stats_def new_events_def)
  ultimately show ?thesis
    by (metis audited_devices_append same_append_eq)
qed

lemma run_once_ring_audited:
  assumes "w_object_ring_devs w (trace s) (swift_dir s) = rings"
    and "fst (run_once w [] s) = Normal ()"
  shows "audited_devices (new_events s (snd (run_once w [] s)))
           = w_set_iter w (ring_names rings)"
proof -
  let ?s' = "snd (run_once w [] s)"
  let ?s1 = "emit (EvGetRings (swift_dir s)) (reset_stats s)"
  have r: "run_once w [] s = (Normal (), ?s')"
    using assms(2) by (metis prod.collapse)
  have ring: "w_object_ring_devs w (trace (reset_stats s)) (swift_dir (reset_stats s)) = rings"
    using assms(1) by (simp add: reset_stats_def)
  from r ring obtain names where n: "policies_device_names rings = Inr names"
    by (cases "policies_device_names rings")
       (simp_all add: run_once_def get_devices_priv_def Let_def)
  have "sweep w (w_set_iter w (set names)) ?s1 = (Normal (), ?s')"
    using r ring n by (simp add: run_once_def get_devices_priv_def Let_def reset_stats_def)
  then have "audited_devices (trace ?s') =
               audited_devices (trace ?s1) @ w_set_iter w (set names)"
    by (rule sweep_audited)
  then have "audited_devices (trace ?s') =
               audited_devices (trace s) @ w_set_iter w (ring_names rings)"
    using policies_device_names_set [OF n] by (simp add: reset_stats_def)
  moreover have "trace ?s' = trace s @ new_events s ?s'"
    using evolves_new_events [OF run_once_evolves [OF r]]
    by (simp add: reset_stats_def new_events_def)
  ultimately show ?thesis
    by (metis audited_devices_append same_append_eq)
qed

text \<open>
  Claim C4, as the code has it. With a non-empty override list, a sweep that completes
  audits the entries of the list in their order, a device as many times as it is
  listed. With an empty override list it audits the devices that the iteration of the
  set of ring names yields, where the ring names are the \<open>device\<close> of every entry, of
  every policy's ring, that is neither null nor empty; when that iteration yields every
  element of the set once, every such device is audited once.
\<close>

theorem audited_devices_of_sweep:
  "(override_devices \<noteq> [] \<and> fst (run_once w override_devices s) = Normal () \<longrightarrow>
      audited_devices (new_events s (snd (run_once w override_devices s)))
        = override_devices) \<and>
   (w_object_ring_devs w (trace s) (swift_dir s) = rings \<and>
    fst (run_once w [] s) = Normal () \<longrightarrow>
      audited_devices (new_events s (snd (run_once w [] s)))
        = w_set_iter w (ring_names rings)) \<and>
   (w_object_ring_devs w (trace s) (swift_dir s) = rings \<and>
    fst (run_once w [] s) = Normal () \<and>
    set (w_set_iter w (ring_names rings)) = ring_names rings \<and>
    distinct (w_set_iter w (ring_names rings)) \<longrightarrow>
      set (audited_devices (new_events s (snd (run_once w [] s)))) = ring_names rings \<and>
      distinct (audited_devices (new_events s (snd (run_once w [] s)))))"
  using run_once_override_audited [of override_devices w s]
    run_once_ring_audited [of w s rings]
  by simp

lemma example_ring_names: "ring_names example_rings = {''127.0.0.1:8123''}"
  by (auto simp: ring_names_def example_rings_def)

theorem audited_devices_of_sweep_witness:
  "[''127.0.0.1:8124'', ''127.0.0.1:8123''] \<noteq> [] \<and>
   fst (run_once empty_world [''127.0.0.1:8124'', ''127.0.0.1:8123''] (init example_conf))
     = Normal () \<and>
   audited_devices
     (new_events (init example_conf)
        (snd (run_once empty_world [''127.0.0.1:8124'', ''127.0.0.1:8123'']
                (init example_conf))))
     = [''127.0.0.1:8124'', ''127.0.0.1:8123''] \<and>
   w_object_ring_devs empty_world (trace (init example_conf)) (swift_dir (init example_conf))
     = example_rings \<and>
   fst (run_once empty_world [] (init example_conf)) = Normal () \<and>
   set (w_set_iter empty_world (ring_names example_rings)) = ring_names example_rings \<and>
   distinct (w_set_iter empty_world (ring_names example_rings)) \<and>
   audited_devices (new_events (init example_conf) (snd (run_once empty_world [] (init example_conf))))
     = [''127.0.0.1:8123'']"
proof -
  have o: "fst (run_once empty_world [''127.0.0.1:8124'', ''127.0.0.1:8123'']
                  (init example_conf)) = Normal ()"
    by (simp add: example_defs model_defs)
  have g: "w_object_ring_devs empty_world (trace (init example_conf))
             (swift_dir (init example_conf)) = example_rings"
    by (simp add: empty_world_def example_world_def)
  have i: "w_set_iter empty_world {''127.0.0.1:8123''} = [''127.0.0.1:8123'']"
    by (simp add: empty_world_def example_world_def)
  have e: "fst (run_once empty_world [] (init example_conf)) = Normal ()"
    by (simp add: example_defs model_defs)
  show ?thesis
    using audited_devices_of_sweep
        [of "[''127.0.0.1:8124'', ''127.0.0.1:8123'']" empty_world "init example_conf"
            example_rings]
      o g e
    by (simp add: i example_ring_names)
qed

text \<open>
  The spec's reading of the override list as a deduplicated set fails on the code: a
  sweep over the list \<open>d, d\<close> audits \<open>d\<close> twice and counts it twice in \<open>device.success\<close>.
\<close>

theorem override_duplicates_audited_twice:
  "audited_devices
     (new_events (init example_conf)
        (snd (run_once empty_world [''127.0.0.1:8123'', ''127.0.0.1:8123'']
                (init example_conf))))
     = [''127.0.0.1:8123'', ''127.0.0.1:8123''] \<and>
   \<not> distinct
       (audited_devices
          (new_events (init example_conf)
             (snd (run_once empty_world [''127.0.0.1:8123'', ''127.0.0.1:8123'']
                     (init example_conf))))) \<and>
   stats (snd (run_once empty_world [''127.0.0.1:8123'', ''127.0.0.1:8123'']
                 (init example_conf))) ''device.success'' = 2"
  by (simp add: new_events_def example_defs model_defs)

subsection \<open>The files-per-second budget\<close>

lemma with_fps_emit: "emit e (with_files_per_second x s) = with_files_per_second x (emit e s)"
  by (simp add: with_files_per_second_def emit_def)

lemma with_fps_incr: "incr k (with_files_per_second x s) = with_files_per_second x (incr k s)"
  by (simp add: with_files_per_second_def incr_def)

lemma with_fps_reset:
  "reset_stats (with_files_per_second x s) = with_files_per_second x (reset_stats s)"
  by (simp add: with_files_per_second_def reset_stats_def)

lemma with_fps_fields [simp]:
  "trace (with_files_per_second x s) = trace s"
  "stats (with_files_per_second x s) = stats s"
  "swift_dir (with_files_per_second x s) = swift_dir s"
  "interval (with_files_per_second x s) = interval s"
  "max_bytes_per_second (with_files_per_second x s) = max_bytes_per_second s"
  "bytes_running_time (with_files_per_second x s) = bytes_running_time s"
  "bytes_processed (with_files_per_second x s) = bytes_processed s"
  "total_bytes_processed (with_files_per_second x s) = total_bytes_processed s"
  by (simp_all add: with_files_per_second_def)

lemma emit_fields:
  "bytes_running_time (emit e s) = bytes_running_time s"
  "max_bytes_per_second (emit e s) = max_bytes_per_second s"
  "bytes_processed (emit e s) = bytes_processed s"
  "total_bytes_processed (emit e s) = total_bytes_processed s"
  by (simp_all add: emit_def)

lemma read_chunks_fps:
  "read_chunks w d k cs etag n (with_files_per_second x s)
     = apsnd (with_files_per_second x) (read_chunks w d k cs etag n s)"
proof (induction cs arbitrary: etag n s)
  case Nil
  show ?case by simp
next
  case (Cons c cs)
  let ?s3 = "(emit (EvRateLimit (bytes_running_time s) (max_bytes_per_second s) (length c))
               (emit (EvReadChunk d k c) s))
             \<lparr>bytes_running_time :=
                 w_ratelimit_sleep w (trace s @ [EvReadChunk d k c]) (bytes_running_time s)
                   (max_bytes_per_second s) (length c),
              bytes_processed := bytes_processed s + int (length c),
              total_bytes_processed := total_bytes_processed s + int (length c)\<rparr>"
  have "(emit (EvRateLimit (bytes_running_time s) (max_bytes_per_second s) (length c))
               (emit (EvReadChunk d k c) (with_files_per_second x s)))
             \<lparr>bytes_running_time :=
                 w_ratelimit_sleep w (trace s @ [EvReadChunk d k c]) (bytes_running_time s)
                   (max_bytes_per_second s) (length c),
              bytes_processed := bytes_processed s + int (length c),
              total_bytes_processed := total_bytes_processed s + int (length c)\<rparr>
          = with_files_per_second x ?s3"
    by (simp add: emit_def with_files_per_second_def)
  then have "read_chunks w d k (c # cs) etag n (with_files_per_second x s)
          = read_chunks w d k cs (etag @ c) (n + length c) (with_files_per_second x ?s3)"
    by (simp add: Let_def with_fps_emit emit_fields)
  also have "\<dots> = apsnd (with_files_per_second x)
                     (read_chunks w d k cs (etag @ c) (n + length c) ?s3)"
    by (rule Cons.IH)
  also have "read_chunks w d k cs (etag @ c) (n + length c) ?s3
               = read_chunks w d k (c # cs) etag n s"
    by (simp add: Let_def emit_fields)
  finally show ?case .
qed

lemma quarantine_fps:
  "quarantine w d k (with_files_per_second x s)
     = apsnd (with_files_per_second x) (quarantine w d k s)"
  by (simp add: quarantine_def Let_def with_fps_emit split: option.splits)

lemma compare_metadata_fps:
  "compare_metadata w d k md etag n (with_files_per_second x s)
     = apsnd (with_files_per_second x) (compare_metadata w d k md etag n s)"
  by (simp add: compare_metadata_def Let_def with_fps_emit quarantine_fps split: sum.splits)

lemma audit_opened_fps:
  "audit_opened w d k f (with_files_per_second x s)
     = apsnd (with_files_per_second x) (audit_opened w d k f s)"
proof -
  obtain e n s1 where rc: "read_chunks w d k (ob_chunks f) [] 0 s = ((e, n), s1)"
    by (metis prod.collapse)
  then show ?thesis
    by (simp add: audit_opened_def read_chunks_fps compare_metadata_fps
             split: sum.splits option.splits)
qed

lemma audit_object_priv_fps:
  "audit_object_priv w d k (with_files_per_second x s)
     = apsnd (with_files_per_second x) (audit_object_priv w d k s)"
  by (simp add: audit_object_priv_def Let_def with_fps_emit audit_opened_fps
           split: open_result.splits)

lemma audit_object_fps:
  "audit_object w d k (with_files_per_second x s)
     = apsnd (with_files_per_second x) (audit_object w d k s)"
  by (cases "audit_object_priv w d k s")
     (simp add: audit_object_def audit_object_priv_fps with_fps_emit split: result.splits)

lemma audit_locations_fps:
  "audit_locations w d ks (with_files_per_second x s)
     = apsnd (with_files_per_second x) (audit_locations w d ks s)"
proof (induction ks arbitrary: s)
  case Nil
  show ?case by simp
next
  case (Cons k ks)
  obtain r1 s1 where a: "audit_object w d k (incr ''found_objects'' s) = (r1, s1)"
    by (cases "audit_object w d k (incr ''found_objects'' s)")
  then have b: "audit_object w d k (incr ''found_objects'' (with_files_per_second x s))
                  = (r1, with_files_per_second x s1)"
    by (simp add: with_fps_incr audit_object_fps)
  show ?case
  proof (cases r1)
    case (Normal success)
    with a b Cons.IH show ?thesis
      by (simp add: with_fps_incr)
  next
    case (Raised e)
    with a b show ?thesis by simp
  qed
qed

lemma find_objects_priv_fps:
  "find_objects_priv w d (with_files_per_second x s)
     = apsnd (with_files_per_second x) (find_objects_priv w d s)"
  by (simp add: find_objects_priv_def Let_def with_fps_emit split: option.splits)

lemma audit_device_priv_fps:
  "audit_device_priv w d (with_files_per_second x s)
     = apsnd (with_files_per_second x) (audit_device_priv w d s)"
proof -
  obtain ks ending s0 where f: "find_objects_priv w d s = ((ks, ending), s0)"
    by (metis prod.collapse)
  obtain r1 s1 where l: "audit_locations w d ks s0 = (r1, s1)"
    by (cases "audit_locations w d ks s0")
  show ?thesis
    using f l
    by (cases r1)
       (simp_all add: audit_device_priv_def find_objects_priv_fps audit_locations_fps
             split: option.splits)
qed

lemma audit_device_fps:
  "audit_device w d (with_files_per_second x s)
     = apsnd (with_files_per_second x) (audit_device w d s)"
  by (cases "audit_device_priv w d s")
     (simp add: audit_device_def audit_device_priv_fps with_fps_emit with_fps_incr
           split: result.splits)

lemma audit_devices_fps:
  "audit_devices w ds (with_files_per_second x s)
     = apsnd (with_files_per_second x) (audit_devices w ds s)"
proof (induction ds arbitrary: s)
  case Nil
  show ?case by simp
next
  case (Cons d ds)
  obtain r1 s1 where a: "audit_device w d s = (r1, s1)"
    by (cases "audit_device w d s")
  with Cons.IH show ?case
    by (cases r1) (simp_all add: audit_device_fps)
qed

lemma sweep_fps:
  "sweep w ds (with_files_per_second x s)
     = apsnd (with_files_per_second x) (sweep w ds s)"
proof -
  let ?s2 = "emit EvTime (emit (EvLog (LogStartingSweep ds)) s)"
  obtain r1 s3 where a: "audit_devices w ds ?s2 = (r1, s3)"
    by (cases "audit_devices w ds ?s2")
  then show ?thesis
    by (cases r1)
       (simp_all add: sweep_def read_time_def Let_def with_fps_emit audit_devices_fps)
qed

lemma get_devices_priv_fps:
  "get_devices_priv w (with_files_per_second x s)
     = apsnd (with_files_per_second x) (get_devices_priv w s)"
  by (simp add: get_devices_priv_def Let_def with_fps_emit split: sum.splits)

lemma run_once_fps:
  "run_once w ov (with_files_per_second x s)
     = apsnd (with_files_per_second x) (run_once w ov s)"
proof (cases "ov = []")
  case False
  then show ?thesis
    by (simp add: run_once_def with_fps_reset sweep_fps)
next
  case True
  obtain r1 s1 where g: "get_devices_priv w (reset_stats s) = (r1, s1)"
    by (cases "get_devices_priv w (reset_stats s)")
  with True show ?thesis
    by (cases r1) (simp_all add: run_once_def with_fps_reset get_devices_priv_fps sweep_fps)
qed

lemma run_forever_iteration_fps:
  "run_forever_iteration w ov (with_files_per_second x s)
     = apsnd (with_files_per_second x) (run_forever_iteration w ov s)"
proof -
  let ?s1 = "emit (EvLog LogBeginSweep) (emit EvTime s)"
  obtain r1 s2 where a: "run_once w ov ?s1 = (r1, s2)"
    by (cases "run_once w ov ?s1")
  then show ?thesis
    by (cases r1)
       (simp_all add: run_forever_iteration_def read_time_def Let_def with_fps_emit
             with_fps_reset run_once_fps)
qed

lemma run_forever_loop_fps:
  "run_forever_loop fuel w ov (with_files_per_second x s)
     = apsnd (with_files_per_second x) (run_forever_loop fuel w ov s)"
proof (induction fuel arbitrary: s)
  case 0
  show ?case by simp
next
  case (Suc fuel)
  obtain r1 s1 where a: "run_forever_iteration w ov s = (r1, s1)"
    by (cases "run_forever_iteration w ov s")
  with Suc.IH show ?case
    by (cases r1) (simp_all add: run_forever_iteration_fps)
qed

lemma run_forever_fps:
  "run_forever fuel w ov (with_files_per_second x s)
     = apsnd (with_files_per_second x) (run_forever fuel w ov s)"
  by (simp add: run_forever_def with_fps_emit run_forever_loop_fps)


lemma rates_from_refl: "rates_from (max_bytes_per_second s) s s"
  by (simp add: rates_from_def new_events_def)

lemma new_events_emit:
  "prefix (trace s0) (trace s) \<Longrightarrow> new_events s0 (emit e s) = new_events s0 s @ [e]"
  by (auto simp: new_events_def emit_def dest: prefix_length_le)

lemma rates_from_emit:
  "rates_from b s0 s \<Longrightarrow> set (ratelimit_rates [e]) \<subseteq> {b} \<Longrightarrow> rates_from b s0 (emit e s)"
  by (simp add: rates_from_def new_events_emit emit_fields)

lemma rates_from_emits:
  "rates_from b s0 s \<Longrightarrow> rates_from b s0 (emit (EvLog l) s)"
  "rates_from b s0 s \<Longrightarrow> rates_from b s0 (emit (EvOpen d k) s)"
  "rates_from b s0 s \<Longrightarrow> rates_from b s0 (emit (EvQuarantine d k) s)"
  "rates_from b s0 s \<Longrightarrow> rates_from b s0 (emit (EvConnect d) s)"
  "rates_from b s0 s \<Longrightarrow> rates_from b s0 (emit (EvIterKeyRange d k1 k2) s)"
  "rates_from b s0 s \<Longrightarrow> rates_from b s0 (emit (EvGetRings dir) s)"
  "rates_from b s0 s \<Longrightarrow> rates_from b s0 (emit EvTime s)"
  by (simp_all add: rates_from_emit)

lemma rates_from_incr: "rates_from b s0 s \<Longrightarrow> rates_from b s0 (incr k s)"
  by (simp add: rates_from_def new_events_def incr_def)

lemma rates_from_counters:
  "rates_from b s0 s \<Longrightarrow>
   rates_from b s0 (s\<lparr>bytes_running_time := x, bytes_processed := y,
                       total_bytes_processed := z\<rparr>)"
  by (simp add: rates_from_def new_events_def)

lemma read_chunks_rates:
  "rates_from b s0 s \<Longrightarrow> read_chunks w d k cs etag n s = (r, s') \<Longrightarrow> rates_from b s0 s'"
proof (induction cs arbitrary: etag n s)
  case Nil
  then show ?case by simp
next
  case (Cons c cs)
  let ?s2 = "emit (EvRateLimit (bytes_running_time s) (max_bytes_per_second s) (length c))
               (emit (EvReadChunk d k c) s)"
  let ?s3 = "?s2\<lparr>bytes_running_time :=
                 w_ratelimit_sleep w (trace s @ [EvReadChunk d k c]) (bytes_running_time s)
                   (max_bytes_per_second s) (length c),
              bytes_processed := bytes_processed s + int (length c),
              total_bytes_processed := total_bytes_processed s + int (length c)\<rparr>"
  have b: "max_bytes_per_second s = b"
    using Cons.prems(1) by (simp add: rates_from_def)
  have "rates_from b s0 ?s2"
    using Cons.prems(1) b by (simp add: rates_from_emit)
  then have "rates_from b s0 ?s3"
    by (rule rates_from_counters)
  moreover have "read_chunks w d k cs (etag @ c) (n + length c) ?s3 = (r, s')"
    using Cons.prems(2) by (simp add: Let_def emit_fields)
  ultimately show ?case
    by (rule Cons.IH)
qed

lemma quarantine_rates:
  "rates_from b s0 s \<Longrightarrow> quarantine w d k s = (r, s') \<Longrightarrow> rates_from b s0 s'"
  by (auto simp: quarantine_def Let_def rates_from_emits split: option.splits)

lemma compare_metadata_rates:
  "rates_from b s0 s \<Longrightarrow> compare_metadata w d k md etag n s = (r, s') \<Longrightarrow>
   rates_from b s0 s'"
  by (auto simp: compare_metadata_def Let_def split: sum.splits if_splits
           intro: quarantine_rates [rotated] rates_from_emits)

lemma audit_opened_rates:
  "rates_from b s0 s \<Longrightarrow> audit_opened w d k f s = (r, s') \<Longrightarrow> rates_from b s0 s'"
  by (auto simp: audit_opened_def split: sum.splits prod.splits option.splits
           intro: compare_metadata_rates [rotated] read_chunks_rates [rotated])

lemma audit_object_priv_rates:
  "rates_from b s0 s \<Longrightarrow> audit_object_priv w d k s = (r, s') \<Longrightarrow> rates_from b s0 s'"
  by (auto simp: audit_object_priv_def Let_def
           split: open_result.splits if_splits
           intro: audit_opened_rates [rotated] rates_from_emits)

lemma audit_object_rates:
  "rates_from b s0 s \<Longrightarrow> audit_object w d k s = (r, s') \<Longrightarrow> rates_from b s0 s'"
  by (auto simp: audit_object_def split: prod.splits result.splits if_splits
           intro: audit_object_priv_rates [rotated] rates_from_emits)

lemma audit_locations_rates:
  "rates_from b s0 s \<Longrightarrow> audit_locations w d ks s = (r, s') \<Longrightarrow> rates_from b s0 s'"
proof (induction ks arbitrary: s)
  case Nil
  then show ?case by simp
next
  case (Cons k ks)
  obtain r1 s1 where a: "audit_object w d k (incr ''found_objects'' s) = (r1, s1)"
    by (cases "audit_object w d k (incr ''found_objects'' s)")
  have e1: "rates_from b s0 s1"
    using audit_object_rates [OF rates_from_incr [OF Cons.prems(1)] a] .
  show ?case
  proof (cases r1)
    case (Normal success)
    with a Cons.prems(2)
    have "audit_locations w d ks (if success then incr ''success'' s1 else incr ''failures'' s1)
            = (r, s')"
      by simp
    moreover have "rates_from b s0 (if success then incr ''success'' s1 else incr ''failures'' s1)"
      using e1 by (simp add: rates_from_incr)
    ultimately show ?thesis
      using Cons.IH by blast
  next
    case (Raised e)
    with a Cons.prems(2) e1 show ?thesis by simp
  qed
qed

lemma find_objects_priv_rates:
  "rates_from b s0 s \<Longrightarrow> find_objects_priv w d s = (r, s') \<Longrightarrow> rates_from b s0 s'"
  by (auto simp: find_objects_priv_def Let_def rates_from_emits split: option.splits)

lemma audit_device_priv_rates:
  "rates_from b s0 s \<Longrightarrow> audit_device_priv w d s = (r, s') \<Longrightarrow> rates_from b s0 s'"
  by (auto simp: audit_device_priv_def split: prod.splits result.splits option.splits
           intro: find_objects_priv_rates [rotated] audit_locations_rates [rotated])

lemma audit_device_rates:
  "rates_from b s0 s \<Longrightarrow> audit_device w d s = (r, s') \<Longrightarrow> rates_from b s0 s'"
  by (auto simp: audit_device_def
           split: prod.splits result.splits if_splits
           intro: audit_device_priv_rates [rotated] rates_from_emits rates_from_incr)

lemma audit_devices_rates:
  "rates_from b s0 s \<Longrightarrow> audit_devices w ds s = (r, s') \<Longrightarrow> rates_from b s0 s'"
proof (induction ds arbitrary: s)
  case Nil
  then show ?case by simp
next
  case (Cons d ds)
  obtain r1 s1 where a: "audit_device w d s = (r1, s1)"
    by (cases "audit_device w d s")
  have e1: "rates_from b s0 s1"
    using audit_device_rates [OF Cons.prems(1) a] .
  show ?case
  proof (cases r1)
    case (Normal u)
    with a Cons.prems(2) have "audit_devices w ds s1 = (r, s')" by simp
    with e1 show ?thesis using Cons.IH by blast
  next
    case (Raised e)
    with a Cons.prems(2) e1 show ?thesis by simp
  qed
qed

lemma sweep_rates:
  assumes "rates_from b s0 s" and "sweep w ds s = (r, s')"
  shows "rates_from b s0 s'"
proof -
  let ?s2 = "emit EvTime (emit (EvLog (LogStartingSweep ds)) s)"
  have r2: "rates_from b s0 ?s2"
    using assms(1) by (simp add: rates_from_emits)
  obtain r1 s3 where a: "audit_devices w ds ?s2 = (r1, s3)"
    by (cases "audit_devices w ds ?s2")
  have r3: "rates_from b s0 s3"
    by (rule audit_devices_rates [OF r2 a])
  show ?thesis
    using assms(2) a r3
    by (cases r1) (auto simp: sweep_def read_time_def Let_def rates_from_emits)
qed

lemma get_devices_priv_rates:
  "rates_from b s0 s \<Longrightarrow> get_devices_priv w s = (r, s') \<Longrightarrow> rates_from b s0 s'"
  by (auto simp: get_devices_priv_def Let_def rates_from_emits split: sum.splits)

lemma run_once_rates:
  assumes "run_once w ov s = (r, s')"
  shows "rates_from (max_bytes_per_second s) s s'"
proof -
  have r0: "rates_from (max_bytes_per_second s) s (reset_stats s)"
    by (simp add: rates_from_def new_events_def reset_stats_def)
  show ?thesis
  proof (cases "ov = []")
    case False
    with assms have "sweep w ov (reset_stats s) = (r, s')"
      by (simp add: run_once_def)
    then show ?thesis
      by (rule sweep_rates [OF r0])
  next
    case True
    obtain r1 s1 where g: "get_devices_priv w (reset_stats s) = (r1, s1)"
      by (cases "get_devices_priv w (reset_stats s)")
    have e1: "rates_from (max_bytes_per_second s) s s1"
      by (rule get_devices_priv_rates [OF r0 g])
    show ?thesis
    proof (cases r1)
      case (Normal devices)
      with assms True g have "sweep w (w_set_iter w devices) s1 = (r, s')"
        by (simp add: run_once_def)
      then show ?thesis
        by (rule sweep_rates [OF e1])
    next
      case (Raised e)
      with assms True g e1 show ?thesis
        by (simp add: run_once_def)
    qed
  qed
qed

lemma init_fps:
  "init (c\<lparr>conf_files_per_second := v\<rparr>)
     = (init c)\<lparr>max_files_per_second := (case v of None \<Rightarrow> 20 | Some r \<Rightarrow> r)\<rparr>"
  by (simp add: init_def reset_stats_def)

text \<open>
  Claim C8. \<open>max_files_per_second\<close> is set from the configuration and read nowhere: two
  auditors that differ in this field only (as the ones built from two configurations that
  differ in \<open>files_per_second\<close> only do) return the same result from \<open>run_once\<close> and from
  \<open>run_forever\<close> and end in states that differ in this field only, so with the same
  statistics and the same trace, call by call. Every call to \<open>ratelimit_sleep\<close> that a
  sweep makes is given \<open>max_bytes_per_second\<close> as its rate.
\<close>

theorem files_per_second_is_unused:
  "init (c\<lparr>conf_files_per_second := v\<rparr>)
     = (init c)\<lparr>max_files_per_second := (case v of None \<Rightarrow> 20 | Some r \<Rightarrow> r)\<rparr> \<and>
   fst (run_once w override_devices (s\<lparr>max_files_per_second := x\<rparr>))
     = fst (run_once w override_devices s) \<and>
   snd (run_once w override_devices (s\<lparr>max_files_per_second := x\<rparr>))
     = (snd (run_once w override_devices s))\<lparr>max_files_per_second := x\<rparr> \<and>
   stats (snd (run_once w override_devices (s\<lparr>max_files_per_second := x\<rparr>)))
     = stats (snd (run_once w override_devices s)) \<and>
   trace (snd (run_once w override_devices (s\<lparr>max_files_per_second := x\<rparr>)))
     = trace (snd (run_once w override_devices s)) \<and>
   fst (run_forever fuel w override_devices (s\<lparr>max_files_per_second := x\<rparr>))
     = fst (run_forever fuel w override_devices s) \<and>
   snd (run_forever fuel w override_devices (s\<lparr>max_files_per_second := x\<rparr>))
     = (snd (run_forever fuel w override_devices s))\<lparr>max_files_per_second := x\<rparr> \<and>
   set (ratelimit_rates (new_events s (snd (run_once w override_devices s))))
     \<subseteq> {max_bytes_per_second s}"
proof -
  have "rates_from (max_bytes_per_second s) s (snd (run_once w override_devices s))"
    by (rule run_once_rates [of w override_devices s "fst (run_once w override_devices s)"])
       simp
  then have "set (ratelimit_rates (new_events s (snd (run_once w override_devices s))))
     \<subseteq> {max_bytes_per_second s}"
    by (simp add: rates_from_def)
  then show ?thesis
    using run_once_fps [of w override_devices x s] run_forever_fps [of fuel w override_devices x s]
    by (simp add: init_fps with_files_per_second_def)
qed

subsection \<open>Two sweeps over unchanged devices\<close>

lemma audit_object_uncorrupted:
  assumes "uncorrupted w"
  shows "fst (audit_object w d k s) = intact_outcome (w_open w (trace s) d k)"
    and "quarantine_calls (trace (snd (audit_object w d k s))) = quarantine_calls (trace s)"
    and "stats (snd (audit_object w d k s)) = stats s"
proof -
  show "stats (snd (audit_object w d k s)) = stats s"
    by (metis audit_object_stats prod.collapse)
  show "fst (audit_object w d k s) = intact_outcome (w_open w (trace s) d k)"
  proof (cases "w_open w (trace s) d k")
    case (Opened f)
    moreover from this assms have "object_intact w f"
      by (auto simp: uncorrupted_def)
    ultimately show ?thesis
      by (simp add: audit_object_intact intact_outcome_def)
  qed (simp_all add: audit_object_def audit_object_priv_def Let_def intact_outcome_def)
  show "quarantine_calls (trace (snd (audit_object w d k s))) = quarantine_calls (trace s)"
  proof (cases "w_open w (trace s) d k")
    case (Opened f)
    moreover from this assms have "object_intact w f"
      by (auto simp: uncorrupted_def)
    ultimately show ?thesis
      by (simp add: audit_object_intact read_chunks_quarantine_calls)
  qed (simp_all add: audit_object_def audit_object_priv_def Let_def)
qed

lemma audit_locations_no_quarantine:
  assumes "uncorrupted w"
  shows "quarantine_calls (trace (snd (audit_locations w d ks s))) = quarantine_calls (trace s)"
proof (induction ks arbitrary: s)
  case Nil
  show ?case by simp
next
  case (Cons k ks)
  obtain r1 s1 where a: "audit_object w d k (incr ''found_objects'' s) = (r1, s1)"
    by (cases "audit_object w d k (incr ''found_objects'' s)")
  have q: "quarantine_calls (trace s1) = quarantine_calls (trace s)"
    using audit_object_uncorrupted(2) [OF assms, of d k "incr ''found_objects'' s"] a by simp
  show ?case
  proof (cases r1)
    case (Normal b)
    with a q Cons.IH [of "if b then incr ''success'' s1 else incr ''failures'' s1"]
    show ?thesis by simp
  next
    case (Raised e)
    with a q show ?thesis by simp
  qed
qed

lemma audit_locations_unchanged:
  assumes "unchanged w" and "uncorrupted w"
  shows "stats a = stats b \<Longrightarrow>
         fst (audit_locations w d ks a) = fst (audit_locations w d ks b) \<and>
         stats (snd (audit_locations w d ks a)) = stats (snd (audit_locations w d ks b))"
proof (induction ks arbitrary: a b)
  case Nil
  then show ?case by simp
next
  case (Cons k ks)
  let ?a = "incr ''found_objects'' a" and ?b = "incr ''found_objects'' b"
  obtain ra a1 where a: "audit_object w d k ?a = (ra, a1)"
    by (cases "audit_object w d k ?a")
  obtain rb b1 where b: "audit_object w d k ?b = (rb, b1)"
    by (cases "audit_object w d k ?b")
  have "w_open w (trace ?a) = w_open w (trace ?b)"
    using assms(1) by (simp add: unchanged_def)
  then have r: "ra = rb"
    using audit_object_uncorrupted(1) [OF assms(2), of d k ?a]
      audit_object_uncorrupted(1) [OF assms(2), of d k ?b] a b by simp
  have st: "stats a1 = stats b1"
    using audit_object_uncorrupted(3) [OF assms(2), of d k ?a]
      audit_object_uncorrupted(3) [OF assms(2), of d k ?b] a b Cons.prems by simp
  show ?case
  proof (cases ra)
    case (Normal success)
    let ?a2 = "if success then incr ''success'' a1 else incr ''failures'' a1"
    let ?b2 = "if success then incr ''success'' b1 else incr ''failures'' b1"
    have "stats ?a2 = stats ?b2"
      using st by simp
    from Cons.IH [OF this]
    have "fst (audit_locations w d ks ?a2) = fst (audit_locations w d ks ?b2) \<and>
          stats (snd (audit_locations w d ks ?a2)) = stats (snd (audit_locations w d ks ?b2))" .
    moreover have "audit_locations w d (k # ks) a = audit_locations w d ks ?a2"
      using a Normal by simp
    moreover have "audit_object w d k ?b = (Normal success, b1)"
      using b r Normal by simp
    then have "audit_locations w d (k # ks) b = audit_locations w d ks ?b2"
      by simp
    ultimately show ?thesis by simp
  next
    case (Raised e)
    have "audit_object w d k ?a = (Raised e, a1)" and "audit_object w d k ?b = (Raised e, b1)"
      using a b r Raised by simp_all
    with st show ?thesis by simp
  qed
qed

lemma find_objects_priv_unchanged:
  assumes "unchanged w"
  shows "fst (find_objects_priv w d a) = fst (find_objects_priv w d b)"
proof -
  have "w_get_connection w (trace a) = w_get_connection w (trace b)"
    and "w_iterKeyRange w (trace a @ [EvConnect d]) = w_iterKeyRange w (trace b @ [EvConnect d])"
    using assms by (simp_all add: unchanged_def)
  then show ?thesis
    by (simp add: find_objects_priv_def Let_def split: option.splits)
qed

lemma find_objects_priv_quarantine:
  "quarantine_calls (trace (snd (find_objects_priv w d s))) = quarantine_calls (trace s)"
  by (simp add: find_objects_priv_def Let_def split: option.splits)

lemma audit_device_priv_unchanged:
  assumes "unchanged w" and "uncorrupted w" and "stats a = stats b"
  shows "fst (audit_device_priv w d a) = fst (audit_device_priv w d b) \<and>
         stats (snd (audit_device_priv w d a)) = stats (snd (audit_device_priv w d b))"
proof -
  obtain ks ending a0 where fa: "find_objects_priv w d a = ((ks, ending), a0)"
    by (metis prod.collapse)
  obtain b0 where fb: "find_objects_priv w d b = ((ks, ending), b0)"
    using find_objects_priv_unchanged [OF assms(1), of d a b] fa by (metis fst_conv prod.collapse)
  have "stats a0 = stats b0"
    using find_objects_priv_stats [OF fa] find_objects_priv_stats [OF fb] assms(3) by simp
  from audit_locations_unchanged [OF assms(1,2) this, of d ks]
  obtain r1 a1 b1 where la: "audit_locations w d ks a0 = (r1, a1)"
    and lb: "audit_locations w d ks b0 = (r1, b1)" and st: "stats a1 = stats b1"
    by (metis prod.collapse)
  show ?thesis
    using fa fb la lb st
    by (cases r1) (simp_all add: audit_device_priv_def split: option.splits)
qed

lemma audit_device_priv_no_quarantine:
  assumes "uncorrupted w"
  shows "quarantine_calls (trace (snd (audit_device_priv w d s))) = quarantine_calls (trace s)"
proof -
  obtain ks ending s0 where f: "find_objects_priv w d s = ((ks, ending), s0)"
    by (metis prod.collapse)
  obtain r1 s1 where l: "audit_locations w d ks s0 = (r1, s1)"
    by (cases "audit_locations w d ks s0")
  have "quarantine_calls (trace s1) = quarantine_calls (trace s)"
    using audit_locations_no_quarantine [OF assms, of d ks s0] l
      find_objects_priv_quarantine [of w d s] f by simp
  then show ?thesis
    using f l by (cases r1) (simp_all add: audit_device_priv_def split: option.splits)
qed

lemma audit_device_unchanged:
  assumes "unchanged w" and "uncorrupted w" and "stats a = stats b"
  shows "fst (audit_device w d a) = fst (audit_device w d b) \<and>
         stats (snd (audit_device w d a)) = stats (snd (audit_device w d b))"
proof -
  obtain r1 a1 b1 where pa: "audit_device_priv w d a = (r1, a1)"
    and pb: "audit_device_priv w d b = (r1, b1)" and st: "stats a1 = stats b1"
    using audit_device_priv_unchanged [OF assms, of d] by (metis prod.collapse)
  then show ?thesis
    by (cases r1) (simp_all add: audit_device_def)
qed

lemma audit_device_no_quarantine:
  assumes "uncorrupted w"
  shows "quarantine_calls (trace (snd (audit_device w d s))) = quarantine_calls (trace s)"
proof -
  obtain r1 s1 where p: "audit_device_priv w d s = (r1, s1)"
    by (cases "audit_device_priv w d s")
  then have "quarantine_calls (trace s1) = quarantine_calls (trace s)"
    using audit_device_priv_no_quarantine [OF assms, of d s] by simp
  with p show ?thesis
    by (cases r1) (simp_all add: audit_device_def)
qed

lemma audit_devices_unchanged:
  assumes "unchanged w" and "uncorrupted w"
  shows "stats a = stats b \<Longrightarrow>
         fst (audit_devices w ds a) = fst (audit_devices w ds b) \<and>
         stats (snd (audit_devices w ds a)) = stats (snd (audit_devices w ds b))"
proof (induction ds arbitrary: a b)
  case Nil
  then show ?case by simp
next
  case (Cons d ds)
  obtain r1 a1 b1 where pa: "audit_device w d a = (r1, a1)"
    and pb: "audit_device w d b = (r1, b1)" and st: "stats a1 = stats b1"
    using audit_device_unchanged [OF assms Cons.prems, of d] by (metis prod.collapse)
  show ?case
  proof (cases r1)
    case (Normal u)
    with pa pb Cons.IH [OF st] show ?thesis by simp
  next
    case (Raised e)
    with pa pb st show ?thesis by simp
  qed
qed

lemma audit_devices_no_quarantine:
  assumes "uncorrupted w"
  shows "quarantine_calls (trace (snd (audit_devices w ds s))) = quarantine_calls (trace s)"
proof (induction ds arbitrary: s)
  case Nil
  show ?case by simp
next
  case (Cons d ds)
  obtain r1 s1 where p: "audit_device w d s = (r1, s1)"
    by (cases "audit_device w d s")
  then have q: "quarantine_calls (trace s1) = quarantine_calls (trace s)"
    using audit_device_no_quarantine [OF assms, of d s] by simp
  show ?case
  proof (cases r1)
    case (Normal u)
    with p q Cons.IH [of s1] show ?thesis by simp
  next
    case (Raised e)
    with p q show ?thesis by simp
  qed
qed

lemma sweep_unchanged:
  assumes "unchanged w" and "uncorrupted w" and "stats a = stats b"
  shows "fst (sweep w ds a) = fst (sweep w ds b) \<and>
         stats (snd (sweep w ds a)) = stats (snd (sweep w ds b))"
proof -
  let ?a = "emit EvTime (emit (EvLog (LogStartingSweep ds)) a)"
  let ?b = "emit EvTime (emit (EvLog (LogStartingSweep ds)) b)"
  have "stats ?a = stats ?b"
    using assms(3) by simp
  from audit_devices_unchanged [OF assms(1,2) this, of ds]
  obtain r1 a1 b1 where pa: "audit_devices w ds ?a = (r1, a1)"
    and pb: "audit_devices w ds ?b = (r1, b1)" and st: "stats a1 = stats b1"
    by (metis prod.collapse)
  then show ?thesis
    by (cases r1) (simp_all add: sweep_def read_time_def Let_def)
qed

lemma sweep_no_quarantine:
  assumes "uncorrupted w"
  shows "quarantine_calls (trace (snd (sweep w ds s))) = quarantine_calls (trace s)"
proof -
  let ?s2 = "emit EvTime (emit (EvLog (LogStartingSweep ds)) s)"
  obtain r1 s3 where p: "audit_devices w ds ?s2 = (r1, s3)"
    by (cases "audit_devices w ds ?s2")
  then have "quarantine_calls (trace s3) = quarantine_calls (trace s)"
    using audit_devices_no_quarantine [OF assms, of ds ?s2] by simp
  with p show ?thesis
    by (cases r1) (simp_all add: sweep_def read_time_def Let_def)
qed

lemma stats_reset: "stats (reset_stats s) = (\<lambda>k. 0)"
  by (simp add: reset_stats_def)

lemma run_once_unchanged:
  assumes "unchanged w" and "uncorrupted w" and "swift_dir a = swift_dir b"
  shows "fst (run_once w ov a) = fst (run_once w ov b) \<and>
         stats (snd (run_once w ov a)) = stats (snd (run_once w ov b))"
proof (cases "ov = []")
  case False
  have "stats (reset_stats a) = stats (reset_stats b)"
    by (simp add: reset_stats_def)
  from sweep_unchanged [OF assms(1,2) this, of ov] False show ?thesis
    by (simp add: run_once_def)
next
  case True
  have "w_object_ring_devs w (trace (reset_stats a))
          = w_object_ring_devs w (trace (reset_stats b))"
    using assms(1) unfolding unchanged_def by blast
  then have ring: "w_object_ring_devs w (trace (reset_stats a)) (swift_dir (reset_stats a))
          = w_object_ring_devs w (trace (reset_stats b)) (swift_dir (reset_stats b))"
    using assms(3) by (simp add: reset_stats_conf)
  obtain x where xa: "w_object_ring_devs w (trace (reset_stats a)) (swift_dir (reset_stats a)) = x"
    and xb: "w_object_ring_devs w (trace (reset_stats b)) (swift_dir (reset_stats b)) = x"
    using ring by simp
  show ?thesis
  proof (cases "policies_device_names x")
    case (Inl e)
    with xa xb True show ?thesis
      by (simp add: run_once_def get_devices_priv_def Let_def stats_reset)
  next
    case (Inr names)
    let ?a = "emit (EvGetRings (swift_dir (reset_stats a))) (reset_stats a)"
    let ?b = "emit (EvGetRings (swift_dir (reset_stats b))) (reset_stats b)"
    have "stats ?a = stats ?b"
      by (simp add: reset_stats_def)
    from sweep_unchanged [OF assms(1,2) this, of "w_set_iter w (set names)"]
      Inr xa xb True
    show ?thesis
      by (simp add: run_once_def get_devices_priv_def Let_def stats_reset)
  qed
qed

lemma get_devices_priv_quarantine:
  "quarantine_calls (trace (snd (get_devices_priv w s))) = quarantine_calls (trace s)"
  by (simp add: get_devices_priv_def Let_def split: sum.splits)

lemma run_once_no_quarantine:
  assumes "uncorrupted w"
  shows "quarantine_calls (trace (snd (run_once w ov s))) = quarantine_calls (trace s)"
proof (cases "ov = []")
  case False
  with sweep_no_quarantine [OF assms, of ov "reset_stats s"] show ?thesis
    by (simp add: run_once_def reset_stats_def)
next
  case True
  obtain r1 s1 where g: "get_devices_priv w (reset_stats s) = (r1, s1)"
    by (cases "get_devices_priv w (reset_stats s)")
  then have q: "quarantine_calls (trace s1) = quarantine_calls (trace s)"
    using get_devices_priv_quarantine [of w "reset_stats s"] by (simp add: reset_stats_def)
  show ?thesis
  proof (cases r1)
    case (Normal devices)
    with g q True sweep_no_quarantine [OF assms, of "w_set_iter w devices" s1] show ?thesis
      by (simp add: run_once_def)
  next
    case (Raised e)
    with g q True show ?thesis
      by (simp add: run_once_def)
  qed
qed

lemma run_once_new_quarantines:
  assumes "uncorrupted w"
  shows "quarantine_calls (new_events s (snd (run_once w ov s))) = []"
proof -
  let ?s' = "snd (run_once w ov s)"
  have "run_once w ov s = (fst (run_once w ov s), ?s')"
    by simp
  from evolves_new_events [OF run_once_evolves [OF this]]
  have "trace ?s' = trace s @ new_events s ?s'"
    by (simp add: reset_stats_def new_events_def)
  then have "quarantine_calls (trace ?s')
               = quarantine_calls (trace s) @ quarantine_calls (new_events s ?s')"
    by (metis quarantine_calls_append)
  with run_once_no_quarantine [OF assms, of ov s] show ?thesis
    by simp
qed

lemma run_once_swift_dir: "swift_dir (snd (run_once w ov s)) = swift_dir s"
proof -
  have "run_once w ov s = (fst (run_once w ov s), snd (run_once w ov s))"
    by simp
  from run_once_evolves [OF this] show ?thesis
    by (simp add: evolves_def reset_stats_def)
qed

text \<open>
  Claim C9. In a world whose rings, connections, key ranges and disk files answer the
  same whatever has happened, and where every object that opens is intact, a sweep and
  the sweep that follows it return the same result and end with the same statistics, in
  particular the same count of successes, and neither calls \<open>quarantine\<close>.
\<close>

theorem consecutive_sweeps_agree:
  assumes "unchanged w" and "uncorrupted w"
  shows "stats (snd (run_once w override_devices (snd (run_once w override_devices s))))
             ''success''
           = stats (snd (run_once w override_devices s)) ''success'' \<and>
         stats (snd (run_once w override_devices (snd (run_once w override_devices s))))
           = stats (snd (run_once w override_devices s)) \<and>
         fst (run_once w override_devices (snd (run_once w override_devices s)))
           = fst (run_once w override_devices s) \<and>
         quarantine_calls (new_events s (snd (run_once w override_devices s))) = [] \<and>
         quarantine_calls
           (new_events (snd (run_once w override_devices s))
              (snd (run_once w override_devices (snd (run_once w override_devices s))))) = []"
proof -
  have "swift_dir (snd (run_once w override_devices s)) = swift_dir s"
    by (rule run_once_swift_dir)
  from run_once_unchanged [OF assms this, of override_devices]
    run_once_new_quarantines [OF assms(2)]
  show ?thesis
    by simp
qed

lemma healthy_unchanged: "unchanged healthy_world"
  by (simp add: unchanged_def healthy_world_def example_world_def healthy_open_def fun_eq_iff)

lemma healthy_uncorrupted: "uncorrupted healthy_world"
proof -
  have "object_intact healthy_world hello_intact"
    by (simp add: object_intact_def hello_intact_def hello_metadata_def healthy_world_def
        example_world_def example_md5_def py_int_def strip_def is_space_def parse_digits_def
        is_digit_def)
  then show ?thesis
    by (auto simp: uncorrupted_def healthy_world_def healthy_open_def split: if_splits)
qed

theorem consecutive_sweeps_agree_witness:
  "unchanged healthy_world \<and> uncorrupted healthy_world \<and>
   fst (run_once healthy_world [] (init example_conf)) = Normal () \<and>
   stats (snd (run_once healthy_world [] (init example_conf))) ''success'' = 2 \<and>
   stats (snd (run_once healthy_world [] (snd (run_once healthy_world [] (init example_conf)))))
     ''success'' = 2 \<and>
   quarantine_calls
     (new_events (init example_conf) (snd (run_once healthy_world [] (init example_conf)))) = [] \<and>
   quarantine_calls
     (new_events (snd (run_once healthy_world [] (init example_conf)))
        (snd (run_once healthy_world []
                (snd (run_once healthy_world [] (init example_conf)))))) = []"
proof -
  have f: "fst (run_once healthy_world [] (init example_conf)) = Normal ()"
    by (simp add: example_defs model_defs)
  have s: "stats (snd (run_once healthy_world [] (init example_conf))) ''success'' = 2"
    by (simp add: example_defs model_defs)
  show ?thesis
    using consecutive_sweeps_agree [OF healthy_unchanged healthy_uncorrupted, of "[]"
        "init example_conf"] healthy_unchanged healthy_uncorrupted f s
    by simp
qed

end
